theory Spec2Isabelle
  imports Complex_Main "HOL-Library.AList" "HOL-Library.Char_ord" "HOL-Library.List_Lexorder"
    "HOL-Library.Product_Lexorder"
begin

section \<open>Time, numbers and identifiers (helper.ts)\<close>

text \<open>
  A JavaScript \<open>Date\<close> is its \<open>getTime()\<close> value: milliseconds since the epoch, an
  integer. Every \<open>new Date()\<close> and \<open>Date.now()\<close> of the source is an explicit argument
  of the function that reads the clock, one argument per read.

  \<open>Math.round\<close> rounds to the nearest integer, halves towards plus infinity. The
  quotients it is applied to are millisecond differences over 60000, far below the
  precision of a double, so the rational value stands for the floating-point one;
  the two part only when the minutes subtracted under the rounding reach about
  \<open>2^39\<close>, which no session does.
\<close>

definition js_round :: "rat \<Rightarrow> int" where
  "js_round x = \<lfloor>x + 1 / 2\<rfloor>"

definition digit_char :: "nat \<Rightarrow> char" where
  "digit_char n = char_of (48 + n)"

text \<open>The decimal text of a number, as a template literal renders an integer.\<close>

function show_nat :: "nat \<Rightarrow> string" where
  "show_nat n = (if n < 10 then [digit_char n] else show_nat (n div 10) @ [digit_char (n mod 10)])"
  by pat_completeness auto
termination
  by (relation "measure id") auto

declare show_nat.simps [simp del]

definition show_int :: "int \<Rightarrow> string" where
  "show_int i = (if i < 0 then CHR ''-'' # show_nat (nat (- i)) else show_nat (nat i))"

text \<open>
  \<open>toISOString\<close> belongs to the platform; it is the parameter \<open>toISO\<close>.
  \<open>split('T')[0]\<close> is the text before the first \<open>T\<close>, and \<open>replace(/-/g, '')\<close>
  drops every hyphen.
\<close>

definition getDateString :: "(int \<Rightarrow> string) \<Rightarrow> int \<Rightarrow> string" where
  "getDateString toISO date = takeWhile (\<lambda>c. c \<noteq> CHR ''T'') (toISO date)"

definition generateSessionId :: "(int \<Rightarrow> string) \<Rightarrow> string \<Rightarrow> int \<Rightarrow> string" where
  "generateSessionId toISO userId now =
     (let dateStr = filter (\<lambda>c. c \<noteq> CHR ''-'') (takeWhile (\<lambda>c. c \<noteq> CHR ''T'') (toISO now));
          timestamp = now
      in userId @ ''_'' @ dateStr @ ''_'' @ show_int timestamp)"

definition generateBreakId :: "int \<Rightarrow> string" where
  "generateBreakId now = ''break_'' @ show_int now"

definition generateStatusUpdateId :: "int \<Rightarrow> string" where
  "generateStatusUpdateId now = ''status_'' @ show_int now"

section \<open>The break-type table (constants.ts)\<close>

datatype break_type = Short | Lunch | Personal | Meeting

record break_config =
  bc_name :: string
  bc_duration :: "int option"

fun BREAK_TYPES :: "break_type \<Rightarrow> break_config" where
  "BREAK_TYPES Short = \<lparr>bc_name = ''Short Break'', bc_duration = Some 15\<rparr>"
| "BREAK_TYPES Lunch = \<lparr>bc_name = ''Lunch Break'', bc_duration = Some 45\<rparr>"
| "BREAK_TYPES Personal = \<lparr>bc_name = ''Personal Break'', bc_duration = Some 20\<rparr>"
| "BREAK_TYPES Meeting = \<lparr>bc_name = ''Meeting Break'', bc_duration = None\<rparr>"

section \<open>Documents (schema)\<close>

text \<open>
  The documents of the store, field by field. An optional field is an \<open>option\<close>.
  Left out are the fields no function below reads: the timestamps the store stamps
  itself (\<open>createdAt\<close>, \<open>updatedAt\<close>, \<open>lastActivity\<close>) and the display timezone.
\<close>

datatype user_state = CheckedIn | CheckedOut | OnBreak | Offline

datatype doc_status = Active | Completed

record current_break =
  cb_id :: string
  cb_type :: break_type
  cb_startTime :: int

record current_session =
  cs_checkinTime :: int
  cs_totalBreakTime :: int
  cs_currentBreak :: "current_break option"
  cs_currentWorkStatus :: "string option"
  cs_statusUpdateCount :: int

record user_status =
  us_userId :: "string option"
  us_username :: "string option"
  us_status :: "user_state option"
  us_currentSessionId :: "string option"
  us_lastCheckin :: "int option"
  us_lastCheckout :: "int option"
  us_currentSession :: "current_session option"

record session_notes =
  n_checkin :: "string option"
  n_checkout :: "string option"

record checkin_session =
  s_sessionId :: string
  s_userId :: string
  s_username :: string
  s_date :: string
  s_checkinTime :: int
  s_checkoutTime :: "int option"
  s_status :: doc_status
  s_totalBreakTime :: int
  s_totalWorkTime :: "int option"
  s_notes :: "session_notes option"
  s_breakCount :: int
  s_statusUpdateCount :: int
  s_lastWorkStatus :: "string option"

record break_record =
  b_breakId :: string
  b_sessionId :: string
  b_userId :: string
  b_type :: break_type
  b_startTime :: int
  b_endTime :: "int option"
  b_duration :: "int option"
  b_expectedDuration :: "int option"
  b_notes :: "string option"
  b_status :: doc_status

record status_update =
  u_updateId :: string
  u_sessionId :: string
  u_userId :: string
  u_username :: string
  u_status :: string
  u_timestamp :: int
  u_previousStatus :: "string option"

record status_reminder =
  r_userId :: string
  r_username :: string
  r_sessionId :: string
  r_reminderCount :: int
  r_isActive :: bool
  r_lastReminderSent :: "int option"
  r_lastStatusUpdate :: "int option"

record user_current_state =
  ucs_status :: user_status
  ucs_currentSession :: "checkin_session option"
  ucs_activeBreak :: "break_record option"
  ucs_recentStatusUpdates :: "status_update list option"

text \<open>
  The store: \<open>user_status\<close> and \<open>checkin_sessions\<close> are keyed by document id; the
  subcollections \<open>breaks\<close> and \<open>status_updates\<close> of a session, and the collection
  \<open>status_reminders\<close>, are association lists from document id to document, because
  the code queries them as lists.
\<close>

record db =
  user_status_col :: "string \<rightharpoonup> user_status"
  checkin_sessions :: "string \<rightharpoonup> checkin_session"
  breaks :: "string \<Rightarrow> (string \<times> break_record) list"
  status_updates :: "string \<Rightarrow> (string \<times> status_update) list"
  status_reminders :: "(string \<times> status_reminder) list"

definition empty_db :: db where
  "empty_db = \<lparr>user_status_col = Map.empty, checkin_sessions = Map.empty,
     breaks = (\<lambda>_. []), status_updates = (\<lambda>_. []), status_reminders = []\<rparr>"

datatype error = SessionNotFound | BreakRecordNotFound | DocumentNotFound | FailedToComplete

text \<open>A string or an optional string in a condition: absent and empty are false.\<close>

definition truthy :: "string option \<Rightarrow> bool" where
  "truthy s = (case s of None \<Rightarrow> False | Some t \<Rightarrow> t \<noteq> [])"

text \<open>
  \<open>orderBy(field, 'desc')\<close>: descending by the field, ties by document id in the same
  direction.
\<close>

definition orderBy_desc :: "('d \<Rightarrow> int) \<Rightarrow> (string \<times> 'd) list \<Rightarrow> 'd list" where
  "orderBy_desc f docs = map snd (rev (sort_key (\<lambda>(k, d). (f d, k)) docs))"

section \<open>The store functions (database.ts)\<close>

definition getUserStatus :: "string \<Rightarrow> db \<Rightarrow> user_status option" where
  "getUserStatus userId st = user_status_col st userId"

text \<open>
  \<open>updateUserStatus\<close> writes with \<open>set(..., {merge: true})\<close> on a store configured
  with \<open>ignoreUndefinedProperties\<close>: a field of the update that is \<open>undefined\<close> is not
  written and the stored field stays; the nested map \<open>currentSession\<close> is merged field
  by field; a missing document is created from the fields given.
\<close>

definition merge_opt :: "'a option \<Rightarrow> 'a option \<Rightarrow> 'a option" where
  "merge_opt old new = (case new of None \<Rightarrow> old | Some v \<Rightarrow> Some v)"

definition merge_current_session ::
  "current_session option \<Rightarrow> current_session option \<Rightarrow> current_session option" where
  "merge_current_session old new =
     (case new of
        None \<Rightarrow> old
      | Some n \<Rightarrow>
          (case old of
             None \<Rightarrow> Some n
           | Some c \<Rightarrow> Some (n\<lparr>cs_currentBreak := merge_opt (cs_currentBreak c) (cs_currentBreak n),
                               cs_currentWorkStatus :=
                                 merge_opt (cs_currentWorkStatus c) (cs_currentWorkStatus n)\<rparr>)))"

definition no_update :: user_status where
  "no_update = \<lparr>us_userId = None, us_username = None, us_status = None,
     us_currentSessionId = None, us_lastCheckin = None, us_lastCheckout = None,
     us_currentSession = None\<rparr>"

definition merge_user_status :: "user_status \<Rightarrow> user_status \<Rightarrow> user_status" where
  "merge_user_status old updates =
     \<lparr>us_userId = merge_opt (us_userId old) (us_userId updates),
      us_username = merge_opt (us_username old) (us_username updates),
      us_status = merge_opt (us_status old) (us_status updates),
      us_currentSessionId = merge_opt (us_currentSessionId old) (us_currentSessionId updates),
      us_lastCheckin = merge_opt (us_lastCheckin old) (us_lastCheckin updates),
      us_lastCheckout = merge_opt (us_lastCheckout old) (us_lastCheckout updates),
      us_currentSession =
        merge_current_session (us_currentSession old) (us_currentSession updates)\<rparr>"

definition updateUserStatus :: "string \<Rightarrow> user_status \<Rightarrow> db \<Rightarrow> db" where
  "updateUserStatus userId updates st =
     st\<lparr>user_status_col := (user_status_col st)(userId \<mapsto>
        merge_user_status (case user_status_col st userId of None \<Rightarrow> no_update | Some old \<Rightarrow> old)
          updates)\<rparr>"

definition getCheckinSession :: "string \<Rightarrow> db \<Rightarrow> checkin_session option" where
  "getCheckinSession sessionId st = checkin_sessions st sessionId"

text \<open>
  \<open>createCheckinSession\<close> reads the clock twice: \<open>idNow\<close> inside \<open>generateSessionId\<close>
  and \<open>now\<close> for the session itself.
\<close>

definition createCheckinSession ::
  "(int \<Rightarrow> string) \<Rightarrow> int \<Rightarrow> int \<Rightarrow> string \<Rightarrow> string \<Rightarrow> string option \<Rightarrow> db
     \<Rightarrow> checkin_session \<times> db" where
  "createCheckinSession toISO idNow now userId username notes st =
     (let sessionId = generateSessionId toISO userId idNow;
          session = \<lparr>s_sessionId = sessionId, s_userId = userId, s_username = username,
            s_date = getDateString toISO now, s_checkinTime = now, s_checkoutTime = None,
            s_status = Active, s_totalBreakTime = 0, s_totalWorkTime = None,
            s_notes = (if truthy notes then Some \<lparr>n_checkin = notes, n_checkout = None\<rparr> else None),
            s_breakCount = 0, s_statusUpdateCount = 0, s_lastWorkStatus = None\<rparr>;
          st1 = st\<lparr>checkin_sessions := (checkin_sessions st)(sessionId \<mapsto> session)\<rparr>;
          st2 = updateUserStatus userId
            \<lparr>us_userId = Some userId, us_username = Some username, us_status = Some CheckedIn,
             us_currentSessionId = Some sessionId, us_lastCheckin = Some now,
             us_lastCheckout = None,
             us_currentSession = Some \<lparr>cs_checkinTime = now, cs_totalBreakTime = 0,
               cs_currentBreak = None, cs_currentWorkStatus = None,
               cs_statusUpdateCount = 0\<rparr>\<rparr> st1
      in (session, st2))"

text \<open>
  \<open>completeCheckinSession\<close>: a missing session throws before anything is written.
  The update of the user's status names \<open>currentSessionId\<close> and \<open>currentSession\<close> as
  \<open>undefined\<close>, which the store ignores.
\<close>

definition completeCheckinSession ::
  "int \<Rightarrow> string \<Rightarrow> string option \<Rightarrow> db \<Rightarrow> (error + unit) \<times> db" where
  "completeCheckinSession checkoutTime sessionId checkoutNotes st =
     (case getCheckinSession sessionId st of
        None \<Rightarrow> (Inl SessionNotFound, st)
      | Some session \<Rightarrow>
          (let totalWorkTime = js_round
                 (of_int (checkoutTime - s_checkinTime session) / 60000
                    - of_int (s_totalBreakTime session));
               updated = session\<lparr>s_checkoutTime := Some checkoutTime, s_status := Completed,
                 s_totalWorkTime := Some totalWorkTime\<rparr>;
               updated' = (if truthy checkoutNotes
                  then updated\<lparr>s_notes := Some \<lparr>n_checkin =
                         (case s_notes session of None \<Rightarrow> None | Some n \<Rightarrow> n_checkin n),
                       n_checkout = checkoutNotes\<rparr>\<rparr>
                  else updated);
               st1 = st\<lparr>checkin_sessions := (checkin_sessions st)(sessionId \<mapsto> updated')\<rparr>;
               st2 = updateUserStatus (s_userId session)
                 (no_update\<lparr>us_status := Some CheckedOut, us_lastCheckout := Some checkoutTime\<rparr>) st1
           in (Inr (), st2)))"

text \<open>
  \<open>update\<close> on a session document fails when the document does not exist; what was
  written before stays written.
\<close>

definition update_session ::
  "string \<Rightarrow> (checkin_session \<Rightarrow> checkin_session) \<Rightarrow> db \<Rightarrow> (error + unit) \<times> db" where
  "update_session sessionId f st =
     (case checkin_sessions st sessionId of
        None \<Rightarrow> (Inl DocumentNotFound, st)
      | Some s \<Rightarrow> (Inr (), st\<lparr>checkin_sessions := (checkin_sessions st)(sessionId \<mapsto> f s)\<rparr>))"

definition startBreak ::
  "int \<Rightarrow> int \<Rightarrow> string \<Rightarrow> string \<Rightarrow> break_type \<Rightarrow> string option \<Rightarrow> db
     \<Rightarrow> (error + break_record) \<times> db" where
  "startBreak idNow now sessionId userId breakType notes st =
     (let breakId = generateBreakId idNow;
          breakRecord = \<lparr>b_breakId = breakId, b_sessionId = sessionId, b_userId = userId,
            b_type = breakType, b_startTime = now, b_endTime = None, b_duration = None,
            b_expectedDuration = bc_duration (BREAK_TYPES breakType),
            b_notes = (if truthy notes then notes else None), b_status = Active\<rparr>;
          st1 = st\<lparr>breaks := (breaks st)(sessionId :=
                  AList.update breakId breakRecord (breaks st sessionId))\<rparr>
      in case update_session sessionId (\<lambda>s. s\<lparr>s_breakCount := s_breakCount s + 1\<rparr>) st1 of
           (Inl e, st2) \<Rightarrow> (Inl e, st2)
         | (Inr _, st2) \<Rightarrow>
             (case getUserStatus userId st2 of
                None \<Rightarrow> (Inr breakRecord, st2)
              | Some userStatus \<Rightarrow>
                  (case us_currentSession userStatus of
                     None \<Rightarrow> (Inr breakRecord, st2)
                   | Some cs \<Rightarrow>
                       (Inr breakRecord,
                        updateUserStatus userId
                          (no_update\<lparr>us_status := Some OnBreak,
                             us_currentSession := Some (cs\<lparr>cs_currentBreak :=
                               Some \<lparr>cb_id = breakId, cb_type = breakType,
                                     cb_startTime = now\<rparr>\<rparr>)\<rparr>) st2))))"

definition endBreak ::
  "int \<Rightarrow> string \<Rightarrow> string \<Rightarrow> string \<Rightarrow> string option \<Rightarrow> db
     \<Rightarrow> (error + break_record) \<times> db" where
  "endBreak endTime sessionId breakId userId notes st =
     (case map_of (breaks st sessionId) breakId of
        None \<Rightarrow> (Inl BreakRecordNotFound, st)
      | Some breakData \<Rightarrow>
          (let duration = js_round (of_int (endTime - b_startTime breakData) / 60000);
               newNotes = (case notes of
                    None \<Rightarrow> None
                  | Some n \<Rightarrow>
                      if n = [] then None
                      else (case b_notes breakData of
                              None \<Rightarrow> Some (''End: '' @ n)
                            | Some old \<Rightarrow>
                                if old = [] then Some (''End: '' @ n)
                                else Some (old @ '' | End: '' @ n)));
               ended = breakData\<lparr>b_endTime := Some endTime, b_duration := Some duration,
                 b_status := Completed\<rparr>;
               stored = ended\<lparr>b_notes := merge_opt (b_notes breakData) newNotes\<rparr>;
               st1 = st\<lparr>breaks := (breaks st)(sessionId :=
                       AList.update breakId stored (breaks st sessionId))\<rparr>
           in case update_session sessionId
                     (\<lambda>s. s\<lparr>s_totalBreakTime := s_totalBreakTime s + duration\<rparr>) st1 of
                (Inl e, st2) \<Rightarrow> (Inl e, st2)
              | (Inr _, st2) \<Rightarrow>
                  (let st3 = (case getUserStatus userId st2 of
                       None \<Rightarrow> st2
                     | Some userStatus \<Rightarrow>
                         (case us_currentSession userStatus of
                            None \<Rightarrow> st2
                          | Some cs \<Rightarrow>
                              updateUserStatus userId
                                (no_update\<lparr>us_status := Some CheckedIn,
                                   us_currentSession := Some (cs\<lparr>cs_totalBreakTime :=
                                       cs_totalBreakTime cs + duration,
                                     cs_currentBreak := None\<rparr>)\<rparr>) st2))
                   in (Inr (ended\<lparr>b_notes := newNotes\<rparr>), st3))))"

definition getSessionBreaks :: "string \<Rightarrow> db \<Rightarrow> break_record list" where
  "getSessionBreaks sessionId st = orderBy_desc b_startTime (breaks st sessionId)"

definition getSessionStatusUpdates :: "string \<Rightarrow> nat option \<Rightarrow> db \<Rightarrow> status_update list" where
  "getSessionStatusUpdates sessionId limit st =
     (let query = orderBy_desc u_timestamp (status_updates st sessionId)
      in case limit of
           None \<Rightarrow> query
         | Some n \<Rightarrow> if n = 0 then query else take n query)"

definition getLatestStatusUpdate :: "string \<Rightarrow> db \<Rightarrow> status_update option" where
  "getLatestStatusUpdate sessionId st =
     (case getSessionStatusUpdates sessionId (Some 1) st of
        [] \<Rightarrow> None
      | u # _ \<Rightarrow> Some u)"

text \<open>
  \<open>addStatusUpdate\<close> reads the clock in \<open>generateStatusUpdateId\<close> (\<open>idNow\<close>) and
  then for the timestamp (\<open>now\<close>).
\<close>

definition addStatusUpdate ::
  "int \<Rightarrow> int \<Rightarrow> string \<Rightarrow> string \<Rightarrow> string \<Rightarrow> string \<Rightarrow> db
     \<Rightarrow> (error + status_update) \<times> db" where
  "addStatusUpdate idNow now sessionId userId username status st =
     (let updateId = generateStatusUpdateId idNow;
          previousUpdate = getLatestStatusUpdate sessionId st;
          statusUpdate = \<lparr>u_updateId = updateId, u_sessionId = sessionId, u_userId = userId,
            u_username = username, u_status = status, u_timestamp = now,
            u_previousStatus = map_option u_status previousUpdate\<rparr>;
          st1 = st\<lparr>status_updates := (status_updates st)(sessionId :=
                  AList.update updateId statusUpdate (status_updates st sessionId))\<rparr>
      in case update_session sessionId
                (\<lambda>s. s\<lparr>s_lastWorkStatus := Some status,
                        s_statusUpdateCount := s_statusUpdateCount s + 1\<rparr>) st1 of
           (Inl e, st2) \<Rightarrow> (Inl e, st2)
         | (Inr _, st2) \<Rightarrow>
             (case getUserStatus userId st2 of
                None \<Rightarrow> (Inr statusUpdate, st2)
              | Some userStatus \<Rightarrow>
                  (case us_currentSession userStatus of
                     None \<Rightarrow> (Inr statusUpdate, st2)
                   | Some cs \<Rightarrow>
                       (Inr statusUpdate,
                        updateUserStatus userId
                          (no_update\<lparr>us_currentSession := Some (cs\<lparr>
                               cs_currentWorkStatus := Some status,
                               cs_statusUpdateCount := cs_statusUpdateCount cs + 1\<rparr>)\<rparr>)
                          st2))))"

definition getUserCurrentState :: "string \<Rightarrow> db \<Rightarrow> user_current_state option" where
  "getUserCurrentState userId st =
     (case getUserStatus userId st of
        None \<Rightarrow> None
      | Some status \<Rightarrow>
          (let result = \<lparr>ucs_status = status, ucs_currentSession = None,
                 ucs_activeBreak = None, ucs_recentStatusUpdates = None\<rparr>
           in if truthy (us_currentSessionId status)
              then (case us_currentSessionId status of
                None \<Rightarrow> Some result
              | Some currentSessionId \<Rightarrow>
                  (case getCheckinSession currentSessionId st of
                     None \<Rightarrow> Some result
                   | Some session \<Rightarrow>
                       (let result1 = result\<lparr>ucs_currentSession := Some session,
                              ucs_recentStatusUpdates :=
                                Some (getSessionStatusUpdates currentSessionId (Some 5) st)\<rparr>
                        in case us_currentSession status of
                             None \<Rightarrow> Some result1
                           | Some cs \<Rightarrow>
                               (case cs_currentBreak cs of
                                  None \<Rightarrow> Some result1
                                | Some cb \<Rightarrow>
                                    Some (result1\<lparr>ucs_activeBreak :=
                                      find (\<lambda>b. b_breakId b = cb_id cb)
                                        (getSessionBreaks currentSessionId st)\<rparr>)))))
              else Some result))"

section \<open>Status reminders (database.ts)\<close>

text \<open>
  The functions on reminder records catch every error of the store and log it: a
  failed write leaves the store as it was and the caller goes on.
\<close>

definition createStatusReminder :: "string \<Rightarrow> string \<Rightarrow> string \<Rightarrow> db \<Rightarrow> db" where
  "createStatusReminder userId username sessionId st =
     st\<lparr>status_reminders := AList.update userId
        \<lparr>r_userId = userId, r_username = username, r_sessionId = sessionId,
         r_reminderCount = 0, r_isActive = True, r_lastReminderSent = None,
         r_lastStatusUpdate = None\<rparr> (status_reminders st)\<rparr>"

record reminder_updates =
  ru_reminderCount :: "int option"
  ru_isActive :: "bool option"
  ru_lastReminderSent :: "int option"
  ru_lastStatusUpdate :: "int option"

definition no_reminder_update :: reminder_updates where
  "no_reminder_update = \<lparr>ru_reminderCount = None, ru_isActive = None,
     ru_lastReminderSent = None, ru_lastStatusUpdate = None\<rparr>"

definition apply_reminder_updates :: "reminder_updates \<Rightarrow> status_reminder \<Rightarrow> status_reminder" where
  "apply_reminder_updates updates r =
     r\<lparr>r_reminderCount := (case ru_reminderCount updates of None \<Rightarrow> r_reminderCount r | Some c \<Rightarrow> c),
       r_isActive := (case ru_isActive updates of None \<Rightarrow> r_isActive r | Some a \<Rightarrow> a),
       r_lastReminderSent := merge_opt (r_lastReminderSent r) (ru_lastReminderSent updates),
       r_lastStatusUpdate := merge_opt (r_lastStatusUpdate r) (ru_lastStatusUpdate updates)\<rparr>"

definition updateStatusReminder :: "string \<Rightarrow> reminder_updates \<Rightarrow> db \<Rightarrow> db" where
  "updateStatusReminder userId updates st =
     (case map_of (status_reminders st) userId of
        None \<Rightarrow> st
      | Some r \<Rightarrow> st\<lparr>status_reminders :=
          AList.update userId (apply_reminder_updates updates r) (status_reminders st)\<rparr>)"

definition getStatusReminder :: "string \<Rightarrow> db \<Rightarrow> status_reminder option" where
  "getStatusReminder userId st = map_of (status_reminders st) userId"

definition deactivateStatusReminder :: "string \<Rightarrow> db \<Rightarrow> db" where
  "deactivateStatusReminder userId st =
     updateStatusReminder userId (no_reminder_update\<lparr>ru_isActive := Some False\<rparr>) st"

text \<open>
  The query for the active reminders returns the documents in the order of their
  ids, which are the user ids.
\<close>

definition getActiveStatusReminders :: "db \<Rightarrow> status_reminder list" where
  "getActiveStatusReminders st =
     filter r_isActive (map snd (sort_key fst (status_reminders st)))"

text \<open>
  The notifier is outside the program: \<open>deliver userId\<close> says whether
  \<open>chat.postMessage\<close> to that user answers \<open>ok\<close> (a throw is caught and counts as
  not delivered), and \<open>sentAt userId\<close> is the clock read for \<open>lastReminderSent\<close>
  after the message went out. The result says whether a reminder was delivered.
\<close>

definition sendStatusReminder ::
  "(string \<Rightarrow> bool) \<Rightarrow> (string \<Rightarrow> int) \<Rightarrow> string \<Rightarrow> db \<Rightarrow> bool \<times> db" where
  "sendStatusReminder deliver sentAt userId st =
     (case getUserCurrentState userId st of
        None \<Rightarrow> (False, st)
      | Some userState \<Rightarrow>
          if us_status (ucs_status userState) \<noteq> Some CheckedIn then (False, st)
          else if deliver userId
          then (case getStatusReminder userId st of
                  None \<Rightarrow> (True, st)
                | Some reminder \<Rightarrow>
                    (True, updateStatusReminder userId
                       (no_reminder_update\<lparr>ru_lastReminderSent := Some (sentAt userId),
                          ru_reminderCount := Some (r_reminderCount reminder + 1)\<rparr>) st))
          else (False, st))"

definition REMINDER_INTERVAL_MS :: int where
  "REMINDER_INTERVAL_MS = 45 * 60 * 1000"


text \<open>The reference instant of a reminder; \<open>None\<close> is the final \<open>continue\<close>.\<close>

definition lastActivityTime :: "status_reminder \<Rightarrow> user_current_state \<Rightarrow> int option" where
  "lastActivityTime reminder userState =
     (case r_lastStatusUpdate reminder of
        Some t \<Rightarrow> Some t
      | None \<Rightarrow>
          (case ucs_recentStatusUpdates userState of
             Some (u # _) \<Rightarrow> Some (u_timestamp u)
           | _ \<Rightarrow>
               (case ucs_currentSession userState of
                  Some session \<Rightarrow> Some (s_checkinTime session)
                | None \<Rightarrow> None)))"

text \<open>
  The body of the loop of \<open>checkAndSendStatusReminders\<close> for one reminder of the
  snapshot: whether a reminder was delivered, and the store afterwards.
\<close>

definition check_reminder ::
  "int \<Rightarrow> (string \<Rightarrow> bool) \<Rightarrow> (string \<Rightarrow> int) \<Rightarrow> status_reminder \<Rightarrow> db \<Rightarrow> bool \<times> db" where
  "check_reminder now deliver sentAt reminder st =
     (case getUserCurrentState (r_userId reminder) st of
        None \<Rightarrow> (False, st)
      | Some userState \<Rightarrow>
          if us_status (ucs_status userState) \<noteq> Some CheckedIn then (False, st)
          else (case lastActivityTime reminder userState of
                  None \<Rightarrow> (False, st)
                | Some lastActivity \<Rightarrow>
                    (let timeSinceLastActivity = now - lastActivity
                     in if timeSinceLastActivity \<ge> REMINDER_INTERVAL_MS
                        then (case r_lastReminderSent reminder of
                                Some lastSent \<Rightarrow>
                                  if now - lastSent < REMINDER_INTERVAL_MS then (False, st)
                                  else sendStatusReminder deliver sentAt (r_userId reminder) st
                              | None \<Rightarrow>
                                  sendStatusReminder deliver sentAt (r_userId reminder) st)
                        else (False, st))))"

fun check_all ::
  "int \<Rightarrow> (string \<Rightarrow> bool) \<Rightarrow> (string \<Rightarrow> int) \<Rightarrow> status_reminder list \<Rightarrow> db
     \<Rightarrow> string list \<times> db" where
  "check_all now deliver sentAt [] st = ([], st)"
| "check_all now deliver sentAt (reminder # rest) st =
     (case check_reminder now deliver sentAt reminder st of
        (sent, st1) \<Rightarrow>
          (case check_all now deliver sentAt rest st1 of
             (users, st2) \<Rightarrow> ((if sent then [r_userId reminder] else []) @ users, st2)))"

text \<open>One tick: the users who were sent a reminder, and the store afterwards.\<close>

definition checkAndSendStatusReminders ::
  "int \<Rightarrow> (string \<Rightarrow> bool) \<Rightarrow> (string \<Rightarrow> int) \<Rightarrow> db \<Rightarrow> string list \<times> db" where
  "checkAndSendStatusReminders now deliver sentAt st =
     check_all now deliver sentAt (getActiveStatusReminders st) st"

definition createCheckinSessionWithReminder ::
  "(int \<Rightarrow> string) \<Rightarrow> int \<Rightarrow> int \<Rightarrow> string \<Rightarrow> string \<Rightarrow> string option \<Rightarrow> db
     \<Rightarrow> checkin_session \<times> db" where
  "createCheckinSessionWithReminder toISO idNow now userId username notes st =
     (case createCheckinSession toISO idNow now userId username notes st of
        (session, st1) \<Rightarrow>
          (session, createStatusReminder userId username (s_sessionId session) st1))"

definition completeCheckinSessionWithReminder ::
  "int \<Rightarrow> string \<Rightarrow> string option \<Rightarrow> db \<Rightarrow> (error + unit) \<times> db" where
  "completeCheckinSessionWithReminder checkoutTime sessionId checkoutNotes st =
     (case getCheckinSession sessionId st of
        None \<Rightarrow> (Inl SessionNotFound, st)
      | Some session \<Rightarrow>
          (case completeCheckinSession checkoutTime sessionId checkoutNotes st of
             (Inl e, st1) \<Rightarrow> (Inl e, st1)
           | (Inr _, st1) \<Rightarrow> (Inr (), deactivateStatusReminder (s_userId session) st1)))"




section \<open>The command handlers\<close>

text \<open>
  A handler answers the user and may change the store. The reply is kept as a tag
  (and the piece of text a claim is about), the store is returned. A throw inside the
  \<open>try\<close> block is caught by the handler and answered with a failure message; what
  was written before the throw stays written. The command text arrives trimmed; the
  break type of \<open>/break-start\<close> arrives parsed, \<open>None\<close> for a missing or unknown word.
  The handler looks the word up in the table as a property of an object, so a word
  that names a property every object inherits, \<open>constructor\<close> or \<open>toString\<close>,
  passes its test and starts a break without an expected duration, as a meeting
  break does; the model counts these words among the unknown ones.
\<close>

datatype reply =
    AlreadyActive
  | NotCheckedIn
  | AlreadyOnBreak
  | NotOnBreak
  | BadBreakType
  | CheckinOk checkin_session
  | CheckoutOk checkin_session
  | BreakStarted break_record
  | BreakEnded string
  | CurrentWorkStatus
  | StatusUpdated
  | Failed

definition handleCheckin ::
  "(int \<Rightarrow> string) \<Rightarrow> int \<Rightarrow> int \<Rightarrow> string \<Rightarrow> string \<Rightarrow> string \<Rightarrow> db \<Rightarrow> reply \<times> db" where
  "handleCheckin toISO idNow now userId username notes st =
     (case getUserStatus userId st of
        None \<Rightarrow>
          (case createCheckinSession toISO idNow now userId username (Some notes) st of
             (session, st1) \<Rightarrow> (CheckinOk session, st1))
      | Some userStatus \<Rightarrow>
          if us_status userStatus = Some CheckedIn \<or> us_status userStatus = Some OnBreak
          then (AlreadyActive, st)
          else (case createCheckinSession toISO idNow now userId username (Some notes) st of
                  (session, st1) \<Rightarrow> (CheckinOk session, st1)))"

definition handleCheckout :: "int \<Rightarrow> int \<Rightarrow> string \<Rightarrow> string \<Rightarrow> db \<Rightarrow> reply \<times> db" where
  "handleCheckout endNow checkoutNow userId notes st =
     (case getUserCurrentState userId st of
        None \<Rightarrow> (NotCheckedIn, st)
      | Some userState \<Rightarrow>
          (case ucs_currentSession userState of
             None \<Rightarrow> (NotCheckedIn, st)
           | Some currentSession \<Rightarrow>
               if us_status (ucs_status userState) = Some CheckedOut then (NotCheckedIn, st)
               else
                 (case (if us_status (ucs_status userState) = Some OnBreak
                        then (case ucs_activeBreak userState of
                                None \<Rightarrow> (Inr (), st)
                              | Some activeBreak \<Rightarrow>
                                  (case endBreak endNow (s_sessionId currentSession)
                                          (b_breakId activeBreak) userId
                                          (Some ''Auto-ended due to checkout'') st of
                                     (Inl e, st1) \<Rightarrow> (Inl e, st1)
                                   | (Inr _, st1) \<Rightarrow> (Inr (), st1)))
                        else (Inr (), st)) of
                    (Inl e, st1) \<Rightarrow> (Failed, st1)
                  | (Inr _, st1) \<Rightarrow>
                      (case completeCheckinSession checkoutNow (s_sessionId currentSession)
                              (Some notes) st1 of
                         (Inl e, st2) \<Rightarrow> (Failed, st2)
                       | (Inr _, st2) \<Rightarrow>
                           (case getCheckinSession (s_sessionId currentSession) st2 of
                              None \<Rightarrow> (Failed, st2)
                            | Some completedSession \<Rightarrow>
                                (case s_checkoutTime completedSession of
                                   None \<Rightarrow> (Failed, st2)
                                 | Some _ \<Rightarrow> (CheckoutOk completedSession, st2)))))))"

definition handleBreakStart ::
  "int \<Rightarrow> int \<Rightarrow> string \<Rightarrow> break_type option \<Rightarrow> string \<Rightarrow> db \<Rightarrow> reply \<times> db" where
  "handleBreakStart idNow now userId breakType notes st =
     (case getUserCurrentState userId st of
        None \<Rightarrow> (NotCheckedIn, st)
      | Some userState \<Rightarrow>
          (case ucs_currentSession userState of
             None \<Rightarrow> (NotCheckedIn, st)
           | Some currentSession \<Rightarrow>
               if us_status (ucs_status userState) = Some CheckedOut then (NotCheckedIn, st)
               else if us_status (ucs_status userState) = Some OnBreak
                       \<and> ucs_activeBreak userState \<noteq> None
               then (AlreadyOnBreak, st)
               else (case breakType of
                       None \<Rightarrow> (BadBreakType, st)
                     | Some bt \<Rightarrow>
                         (case startBreak idNow now (s_sessionId currentSession) userId bt
                                 (Some notes) st of
                            (Inl e, st1) \<Rightarrow> (Failed, st1)
                          | (Inr breakRecord, st1) \<Rightarrow> (BreakStarted breakRecord, st1)))))"

text \<open>
  The duration line of the break-end summary. In a condition the number \<open>0\<close> is
  false, as an absent one is.
\<close>

definition durationText :: "break_record \<Rightarrow> string" where
  "durationText endedBreak =
     (let breakConfig = BREAK_TYPES (b_type endedBreak);
          durationText0 = (case b_duration endedBreak of
                             None \<Rightarrow> ''undefined''
                           | Some d \<Rightarrow> show_int d) @ '' minutes''
      in case bc_duration breakConfig of
           None \<Rightarrow> durationText0
         | Some expected \<Rightarrow>
             (case b_duration endedBreak of
                None \<Rightarrow> durationText0
              | Some d \<Rightarrow>
                  if expected \<noteq> 0 \<and> d \<noteq> 0
                  then (let difference = d - expected
                        in if difference > 5
                           then durationText0 @ '' ('' @ show_int difference
                                  @ '' min longer than expected)''
                           else if difference < - 5
                           then durationText0 @ '' ('' @ show_int (abs difference)
                                  @ '' min shorter than expected)''
                           else durationText0)
                  else durationText0))"

definition handleBreakEnd :: "int \<Rightarrow> string \<Rightarrow> string \<Rightarrow> db \<Rightarrow> reply \<times> db" where
  "handleBreakEnd now userId notes st =
     (case getUserCurrentState userId st of
        None \<Rightarrow> (NotOnBreak, st)
      | Some userState \<Rightarrow>
          (case (ucs_activeBreak userState, ucs_currentSession userState) of
             (Some activeBreak, Some currentSession) \<Rightarrow>
               if us_status (ucs_status userState) \<noteq> Some OnBreak then (NotOnBreak, st)
               else (case endBreak now (s_sessionId currentSession) (b_breakId activeBreak)
                            userId (Some notes) st of
                       (Inl e, st1) \<Rightarrow> (Failed, st1)
                     | (Inr endedBreak, st1) \<Rightarrow> (BreakEnded (durationText endedBreak), st1))
           | _ \<Rightarrow> (NotOnBreak, st)))"

definition handleStatusUpdate ::
  "int \<Rightarrow> int \<Rightarrow> string \<Rightarrow> string \<Rightarrow> string \<Rightarrow> db \<Rightarrow> reply \<times> db" where
  "handleStatusUpdate idNow now userId username workStatus st =
     (case getUserCurrentState userId st of
        None \<Rightarrow> (NotCheckedIn, st)
      | Some userState \<Rightarrow>
          (case ucs_currentSession userState of
             None \<Rightarrow> (NotCheckedIn, st)
           | Some currentSession \<Rightarrow>
               if us_status (ucs_status userState) = Some CheckedOut then (NotCheckedIn, st)
               else if workStatus = [] then (CurrentWorkStatus, st)
               else (case addStatusUpdate idNow now (s_sessionId currentSession) userId
                            username workStatus st of
                       (Inl e, st1) \<Rightarrow> (Failed, st1)
                     | (Inr _, st1) \<Rightarrow> (StatusUpdated, st1))))"

text \<open>
  The commands of the users, each with the clock readings its handler makes, run one
  after the other.
\<close>

datatype command =
    Checkin int int string string string
  | Checkout int int string string
  | BreakStart int int string "break_type option" string
  | BreakEnd int string string
  | StatusUpdate int int string string string

fun exec :: "(int \<Rightarrow> string) \<Rightarrow> command \<Rightarrow> db \<Rightarrow> reply \<times> db" where
  "exec toISO (Checkin idNow now userId username notes) st =
     handleCheckin toISO idNow now userId username notes st"
| "exec toISO (Checkout endNow checkoutNow userId notes) st =
     handleCheckout endNow checkoutNow userId notes st"
| "exec toISO (BreakStart idNow now userId breakType notes) st =
     handleBreakStart idNow now userId breakType notes st"
| "exec toISO (BreakEnd now userId notes) st = handleBreakEnd now userId notes st"
| "exec toISO (StatusUpdate idNow now userId username workStatus) st =
     handleStatusUpdate idNow now userId username workStatus st"

fun run :: "(int \<Rightarrow> string) \<Rightarrow> command list \<Rightarrow> db \<Rightarrow> db" where
  "run toISO [] st = st"
| "run toISO (c # cs) st = run toISO cs (snd (exec toISO c st))"

section \<open>Example stores\<close>

text \<open>
  A store with one session of user \<open>U1\<close>, checked in at instant 1000, with one
  five-minute break already completed.
\<close>

definition demo_session :: checkin_session where
  "demo_session = \<lparr>s_sessionId = ''U1_20250101_1000'', s_userId = ''U1'', s_username = ''ann'',
     s_date = ''2025-01-01'', s_checkinTime = 1000, s_checkoutTime = None, s_status = Active,
     s_totalBreakTime = 5, s_totalWorkTime = None, s_notes = None, s_breakCount = 1,
     s_statusUpdateCount = 0, s_lastWorkStatus = None\<rparr>"

definition demo_break :: break_record where
  "demo_break = \<lparr>b_breakId = ''break_2000'', b_sessionId = ''U1_20250101_1000'',
     b_userId = ''U1'', b_type = Short, b_startTime = 2000, b_endTime = Some 302000,
     b_duration = Some 5, b_expectedDuration = Some 15, b_notes = None,
     b_status = Completed\<rparr>"

definition demo_db :: db where
  "demo_db = empty_db\<lparr>
     checkin_sessions := [''U1_20250101_1000'' \<mapsto> demo_session],
     breaks := (\<lambda>_. [])(''U1_20250101_1000'' := [(''break_2000'', demo_break)])\<rparr>"

text \<open>
  The same store while \<open>U1\<close> is on a short break started at instant 600000, and a
  store with a second user \<open>U2\<close> checked in as well.
\<close>

definition demo_active_break :: break_record where
  "demo_active_break = \<lparr>b_breakId = ''break_600000'', b_sessionId = ''U1_20250101_1000'',
     b_userId = ''U1'', b_type = Short, b_startTime = 600000, b_endTime = None,
     b_duration = None, b_expectedDuration = Some 15, b_notes = None, b_status = Active\<rparr>"

definition demo_user_on_break :: user_status where
  "demo_user_on_break = \<lparr>us_userId = Some ''U1'', us_username = Some ''ann'',
     us_status = Some OnBreak, us_currentSessionId = Some ''U1_20250101_1000'',
     us_lastCheckin = Some 1000, us_lastCheckout = None,
     us_currentSession = Some \<lparr>cs_checkinTime = 1000, cs_totalBreakTime = 5,
       cs_currentBreak = Some \<lparr>cb_id = ''break_600000'', cb_type = Short,
         cb_startTime = 600000\<rparr>,
       cs_currentWorkStatus = None, cs_statusUpdateCount = 0\<rparr>\<rparr>"

definition demo_onbreak_db :: db where
  "demo_onbreak_db = empty_db\<lparr>
     user_status_col := [''U1'' \<mapsto> demo_user_on_break],
     checkin_sessions := [''U1_20250101_1000'' \<mapsto> demo_session\<lparr>s_breakCount := 2\<rparr>],
     breaks := (\<lambda>_. [])(''U1_20250101_1000'' :=
        [(''break_2000'', demo_break), (''break_600000'', demo_active_break)])\<rparr>"

definition demo_session2 :: checkin_session where
  "demo_session2 = \<lparr>s_sessionId = ''U2_20250101_1500'', s_userId = ''U2'', s_username = ''bob'',
     s_date = ''2025-01-01'', s_checkinTime = 1500, s_checkoutTime = None, s_status = Active,
     s_totalBreakTime = 0, s_totalWorkTime = None, s_notes = None, s_breakCount = 0,
     s_statusUpdateCount = 0, s_lastWorkStatus = None\<rparr>"

definition demo_two_users_db :: db where
  "demo_two_users_db = demo_db\<lparr>
     checkin_sessions := [''U1_20250101_1000'' \<mapsto> demo_session,
                          ''U2_20250101_1500'' \<mapsto> demo_session2]\<rparr>"

text \<open>
  The store while \<open>U1\<close> is checked in, with two status updates and an active
  reminder record that has no \<open>lastStatusUpdate\<close> and no \<open>lastReminderSent\<close> yet.
\<close>

definition demo_update1 :: status_update where
  "demo_update1 = \<lparr>u_updateId = ''status_5000'', u_sessionId = ''U1_20250101_1000'',
     u_userId = ''U1'', u_username = ''ann'', u_status = ''design'', u_timestamp = 5000,
     u_previousStatus = None\<rparr>"

definition demo_update2 :: status_update where
  "demo_update2 = \<lparr>u_updateId = ''status_10000'', u_sessionId = ''U1_20250101_1000'',
     u_userId = ''U1'', u_username = ''ann'', u_status = ''coding'', u_timestamp = 10000,
     u_previousStatus = Some ''design''\<rparr>"

definition demo_user_checked_in :: user_status where
  "demo_user_checked_in = demo_user_on_break\<lparr>us_status := Some CheckedIn\<rparr>"

definition demo_reminder :: status_reminder where
  "demo_reminder = \<lparr>r_userId = ''U1'', r_username = ''ann'',
     r_sessionId = ''U1_20250101_1000'', r_reminderCount = 0, r_isActive = True,
     r_lastReminderSent = None, r_lastStatusUpdate = None\<rparr>"

definition demo_checkedin_db :: db where
  "demo_checkedin_db = demo_db\<lparr>
     user_status_col := [''U1'' \<mapsto> demo_user_checked_in],
     status_updates := (\<lambda>_. [])(''U1_20250101_1000'' :=
        [(''status_5000'', demo_update1), (''status_10000'', demo_update2)]),
     status_reminders := [(''U1'', demo_reminder)]\<rparr>"

section \<open>Runs under an advancing clock\<close>

text \<open>
  The clock readings a command makes, in the order the handler makes them. A run is
  under an advancing clock when the readings of one command do not go back and the
  first reading of each command is later than the last reading of the command before.
\<close>

fun clock_reads :: "command \<Rightarrow> int list" where
  "clock_reads (Checkin idNow now userId username notes) = [idNow, now]"
| "clock_reads (Checkout endNow checkoutNow userId notes) = [endNow, checkoutNow]"
| "clock_reads (BreakStart idNow now userId breakType notes) = [idNow, now]"
| "clock_reads (BreakEnd now userId notes) = [now]"
| "clock_reads (StatusUpdate idNow now userId username workStatus) = [idNow, now]"

fun advancing :: "int \<Rightarrow> command list \<Rightarrow> bool" where
  "advancing t [] = True"
| "advancing t (c # cs) =
     (t < hd (clock_reads c) \<and> sorted (clock_reads c) \<and> advancing (last (clock_reads c)) cs)"


text \<open>
  The status updates of a session from the oldest to the newest, and the linkage of
  such a list: each \<open>previousStatus\<close> is the status text of the update before, the
  first one has \<open>prev\<close>.
\<close>

definition chronological :: "string \<Rightarrow> db \<Rightarrow> status_update list" where
  "chronological sessionId st = rev (getSessionStatusUpdates sessionId None st)"

fun linked_from :: "string option \<Rightarrow> status_update list \<Rightarrow> bool" where
  "linked_from prev [] = True"
| "linked_from prev (u # us) =
     (u_previousStatus u = prev \<and> linked_from (Some (u_status u)) us)"

text \<open>
  The state of the status-update sub-ledger at clock reading \<open>t\<close>: in every session
  the document ids are distinct and were made from readings up to \<open>t\<close>, no timestamp is
  later than \<open>t\<close>, and the updates in chronological order have strictly increasing
  timestamps and are linked from an absent \<open>previousStatus\<close>.
\<close>

definition updates_inv :: "int \<Rightarrow> db \<Rightarrow> bool" where
  "updates_inv t st =
     (\<forall>sid. distinct (map fst (status_updates st sid))
        \<and> (\<forall>(k, u) \<in> set (status_updates st sid).
              u_timestamp u \<le> t \<and> (\<exists>t' \<le> t. k = generateStatusUpdateId t'))
        \<and> sorted_wrt (\<lambda>a b. u_timestamp a < u_timestamp b) (chronological sid st)
        \<and> linked_from None (chronological sid st))"

text \<open>
  A short day of \<open>U1\<close> under an advancing clock: check-in, two status updates, a lunch
  break and its end, a second check-in attempt, and a checkout.
\<close>

definition demo_toISO :: "int \<Rightarrow> string" where
  "demo_toISO t = ''2025-01-01T00:00:00.000Z''"

definition demo_cmds :: "command list" where
  "demo_cmds =
     [Checkin 1000 1000 ''U1'' ''ann'' [],
      StatusUpdate 5000 5000 ''U1'' ''ann'' ''design'',
      StatusUpdate 10000 10001 ''U1'' ''ann'' ''coding'',
      BreakStart 600000 600000 ''U1'' (Some Lunch) [],
      BreakEnd 3300000 ''U1'' [],
      Checkin 3400000 3400000 ''U1'' ''ann'' [],
      Checkout 3500000 3500001 ''U1'' ''done'']"


text \<open>
  The state of the session machine that the handlers keep: a session document sits
  under its own \<open>sessionId\<close>, which was generated for its user; the session a user's
  status points to has an id generated for that user; and every active session is the
  one its user's status points to, with that status \<open>checked-in\<close> or \<open>on-break\<close>.
\<close>

definition sessions_inv :: "(int \<Rightarrow> string) \<Rightarrow> db \<Rightarrow> bool" where
  "sessions_inv toISO st =
     ((\<forall>sid s. checkin_sessions st sid = Some s \<longrightarrow>
          s_sessionId s = sid \<and> (\<exists>t. sid = generateSessionId toISO (s_userId s) t))
    \<and> (\<forall>u us sid. user_status_col st u = Some us \<and> us_currentSessionId us = Some sid \<longrightarrow>
          (\<exists>t. sid = generateSessionId toISO u t))
    \<and> (\<forall>sid s. checkin_sessions st sid = Some s \<and> s_status s = Active \<longrightarrow>
          (\<exists>us. user_status_col st (s_userId s) = Some us
             \<and> (us_status us = Some CheckedIn \<or> us_status us = Some OnBreak)
             \<and> us_currentSessionId us = Some sid)))"

text \<open>
  What the sub-ledgers may change in the session machine: fields of existing sessions
  other than id, user and status; and, in existing user records, anything but the
  pointer to the current session, with the status kept or set to \<open>checked-in\<close> or
  \<open>on-break\<close>.
\<close>

definition quiet_step :: "db \<Rightarrow> db \<Rightarrow> bool" where
  "quiet_step st st' =
     ((\<forall>sid. (case checkin_sessions st' sid of
                None \<Rightarrow> checkin_sessions st sid = None
              | Some s' \<Rightarrow>
                  (case checkin_sessions st sid of
                     None \<Rightarrow> False
                   | Some s \<Rightarrow> s_sessionId s' = s_sessionId s \<and> s_userId s' = s_userId s
                       \<and> s_status s' = s_status s)))
    \<and> (\<forall>u. (case user_status_col st' u of
              None \<Rightarrow> user_status_col st u = None
            | Some us' \<Rightarrow>
                (case user_status_col st u of
                   None \<Rightarrow> False
                 | Some us \<Rightarrow> us_currentSessionId us' = us_currentSessionId us
                     \<and> (us_status us' = us_status us \<or> us_status us' = Some CheckedIn
                          \<or> us_status us' = Some OnBreak)))))"

definition demo_double_checkin :: "command list" where
  "demo_double_checkin =
     [Checkin 1000 1000 ''U1'' ''ann'' [],
      Checkin 2000 2000 ''U1'' ''ann'' []]"

section \<open>The reminder scheduler seen by one user\<close>

text \<open>
  A collection holds one document per id, and \<open>createStatusReminder\<close> stores each
  record under its \<open>userId\<close>: the reminder collection is well formed when the
  association list that stands for it has one entry per key and each record sits
  under its user's id. The empty store is well formed, and the two functions that
  write to the collection keep it so.
  \<open>sends_to u entries\<close> lists the tick readings at which \<open>u\<close> was sent a reminder,
  one entry per reminder. \<open>idle_user u T lrs st\<close> says that, in the store \<open>st\<close>,
  user \<open>u\<close> is checked in and has an active reminder record whose reference instant
  (as \<open>lastActivityTime\<close> computes it) is \<open>T\<close> and whose \<open>lastReminderSent\<close> is
  \<open>lrs\<close>.
\<close>

definition reminders_wf :: "db \<Rightarrow> bool" where
  "reminders_wf st =
     (distinct (map fst (status_reminders st))
      \<and> (\<forall>(k, r) \<in> set (status_reminders st). r_userId r = k))"

definition sends_to :: "string \<Rightarrow> (int \<times> string list) list \<Rightarrow> int list" where
  "sends_to u entries =
     concat (map (\<lambda>(now, users). replicate (count_list users u) now) entries)"


text \<open>
  A short session of \<open>U1\<close>: check-in at instant 1000, two short breaks of 31
  seconds each, and a checkout 90 seconds after the check-in.
\<close>

definition demo_short_breaks :: "command list" where
  "demo_short_breaks =
     [Checkin 1000 1000 ''U1'' ''ann'' [],
      BreakStart 2000 2000 ''U1'' (Some Short) [],
      BreakEnd 33000 ''U1'' [],
      BreakStart 34000 34000 ''U1'' (Some Short) [],
      BreakEnd 65000 ''U1'' [],
      Checkout 91000 91000 ''U1'' []]"





section \<open>Properties\<close>

subsection \<open>Frame lemmas\<close>

lemma js_round_diff_int: "js_round (x - of_int n) = js_round x - n"
  unfolding js_round_def by (metis diff_add_eq floor_diff_of_int)

lemma updateUserStatus_other [simp]:
  "checkin_sessions (updateUserStatus u p st) = checkin_sessions st"
  "breaks (updateUserStatus u p st) = breaks st"
  "status_updates (updateUserStatus u p st) = status_updates st"
  "status_reminders (updateUserStatus u p st) = status_reminders st"
  by (simp_all add: updateUserStatus_def)

subsection \<open>Checkout totals\<close>

lemma completeCheckinSession_session:
  assumes "getCheckinSession sid st = Some session"
  shows "fst (completeCheckinSession t sid nts st) = Inr ()"
    and "\<exists>s'. getCheckinSession sid (snd (completeCheckinSession t sid nts st)) = Some s'
          \<and> s_totalWorkTime s' = Some (js_round (of_int (t - s_checkinTime session) / 60000)
                - s_totalBreakTime session)
          \<and> s_status s' = Completed \<and> s_checkoutTime s' = Some t
          \<and> s_totalBreakTime s' = s_totalBreakTime session"
  using assms
  by (simp_all add: completeCheckinSession_def getCheckinSession_def Let_def js_round_diff_int)

text \<open>
  Claim C1, as the code has it. Completing a session whose \<open>totalBreakTime\<close> is an
  integer number of minutes stores \<open>totalWorkTime = round((checkoutTime -
  checkinTime) / 60000) - totalBreakTime\<close>, marks the session completed and stamps
  \<open>checkoutTime\<close>. The value is not clamped. It is negative exactly when the break
  minutes exceed the elapsed minutes by more than half a minute: break minutes that
  exceed the elapsed time by half a minute or less give \<open>0\<close>.
\<close>

theorem checkout_totalWorkTime:
  assumes "getCheckinSession sid st = Some session"
  shows "\<exists>s' w. getCheckinSession sid (snd (completeCheckinSession t sid nts st)) = Some s'
          \<and> s_status s' = Completed \<and> s_checkoutTime s' = Some t
          \<and> s_totalBreakTime s' = s_totalBreakTime session
          \<and> s_totalWorkTime s' = Some w
          \<and> w = js_round (of_int (t - s_checkinTime session) / 60000) - s_totalBreakTime session
          \<and> (w < 0 \<longleftrightarrow> of_int (t - s_checkinTime session) / 60000 + 1 / 2
                          < (of_int (s_totalBreakTime session) :: rat))"
proof -
  from completeCheckinSession_session(2) [OF assms, of t nts]
  obtain s' where s: "getCheckinSession sid (snd (completeCheckinSession t sid nts st)) = Some s'"
    "s_totalWorkTime s' = Some (js_round (of_int (t - s_checkinTime session) / 60000)
                - s_totalBreakTime session)"
    "s_status s' = Completed" "s_checkoutTime s' = Some t"
    "s_totalBreakTime s' = s_totalBreakTime session" by blast
  have "js_round (of_int (t - s_checkinTime session) / 60000) - s_totalBreakTime session < 0
     \<longleftrightarrow> of_int (t - s_checkinTime session) / 60000 + 1 / 2
           < (of_int (s_totalBreakTime session) :: rat)"
    by (simp add: js_round_def floor_less_iff)
  with s show ?thesis by blast
qed

theorem checkout_totalWorkTime_witness:
  "getCheckinSession ''U1_20250101_1000'' demo_db = Some demo_session
   \<and> (\<exists>s'. getCheckinSession ''U1_20250101_1000''
              (snd (completeCheckinSession 91000 ''U1_20250101_1000'' None demo_db)) = Some s'
          \<and> s_status s' = Completed \<and> s_totalWorkTime s' = Some (- 3))"
proof -
  have h: "getCheckinSession ''U1_20250101_1000'' demo_db = Some demo_session"
    by (simp add: getCheckinSession_def demo_db_def)
  have r: "js_round (3 / 2) = 2" by (simp add: js_round_def)
  show ?thesis
    using h checkout_totalWorkTime [OF h, of 91000 None]
    by (auto simp add: demo_session_def r)
qed

subsection \<open>Ending a break\<close>

text \<open>
  Claim C7. Ending a break whose id names no break document under the session fails
  with the break-not-found error and returns the store as it was: the session totals,
  the counters and the user's status projection are untouched.
\<close>

theorem endBreak_missing_break:
  assumes "map_of (breaks st sid) bid = None"
  shows "endBreak t sid bid uid nts st = (Inl BreakRecordNotFound, st)"
  using assms by (simp add: endBreak_def)

theorem endBreak_missing_break_witness:
  "map_of (breaks demo_db ''U1_20250101_1000'') ''break_7'' = None
   \<and> endBreak 400000 ''U1_20250101_1000'' ''break_7'' ''U1'' None demo_db
       = (Inl BreakRecordNotFound, demo_db)"
proof -
  have h: "map_of (breaks demo_db ''U1_20250101_1000'') ''break_7'' = None"
    by (simp add: demo_db_def)
  show ?thesis using h endBreak_missing_break [OF h] by simp
qed

lemma endBreak_existing:
  assumes "map_of (breaks st sid) bid = Some b" and "checkin_sessions st sid = Some s"
  shows "\<exists>r st' b'. endBreak t sid bid uid nts st = (Inr r, st')
     \<and> b_duration r = Some (js_round (of_int (t - b_startTime b) / 60000))
     \<and> b_status r = Completed \<and> b_endTime r = Some t
     \<and> map_of (breaks st' sid) bid = Some b' \<and> b_startTime b' = b_startTime b
     \<and> b_status b' = Completed
     \<and> b_duration b' = Some (js_round (of_int (t - b_startTime b) / 60000))
     \<and> checkin_sessions st' sid
         = Some (s\<lparr>s_totalBreakTime :=
                   s_totalBreakTime s + js_round (of_int (t - b_startTime b) / 60000)\<rparr>)"
  using assms
  by (auto simp add: endBreak_def update_session_def Let_def getUserStatus_def update_conv
      split: option.splits)

text \<open>
  Claim C10. \<open>endBreak\<close> does not look at the status of the break. Whenever the break
  document and its session exist, whether the break is active or already completed,
  the call succeeds, computes the duration from the clock reading of this call and
  adds it to the session's \<open>totalBreakTime\<close>; a second call on the same break
  succeeds too and adds its own duration on top of the first.
\<close>

theorem endBreak_twice:
  assumes "map_of (breaks st sid) bid = Some b" and "checkin_sessions st sid = Some s"
  shows "\<exists>r1 st1 r2 st2 s1 s2.
       endBreak t1 sid bid uid n1 st = (Inr r1, st1)
     \<and> endBreak t2 sid bid uid n2 st1 = (Inr r2, st2)
     \<and> b_duration r1 = Some (js_round (of_int (t1 - b_startTime b) / 60000))
     \<and> b_duration r2 = Some (js_round (of_int (t2 - b_startTime b) / 60000))
     \<and> checkin_sessions st1 sid = Some s1
     \<and> s_totalBreakTime s1
         = s_totalBreakTime s + js_round (of_int (t1 - b_startTime b) / 60000)
     \<and> checkin_sessions st2 sid = Some s2
     \<and> s_totalBreakTime s2
         = s_totalBreakTime s + js_round (of_int (t1 - b_startTime b) / 60000)
             + js_round (of_int (t2 - b_startTime b) / 60000)"
proof -
  from endBreak_existing [OF assms, of t1 uid n1]
  obtain r1 st1 b1 where 1: "endBreak t1 sid bid uid n1 st = (Inr r1, st1)"
    "b_duration r1 = Some (js_round (of_int (t1 - b_startTime b) / 60000))"
    "map_of (breaks st1 sid) bid = Some b1" "b_startTime b1 = b_startTime b"
    "checkin_sessions st1 sid
       = Some (s\<lparr>s_totalBreakTime :=
                 s_totalBreakTime s + js_round (of_int (t1 - b_startTime b) / 60000)\<rparr>)"
    by blast
  from endBreak_existing [OF 1(3) 1(5), of t2 uid n2]
  obtain r2 st2 s2 where 2: "endBreak t2 sid bid uid n2 st1 = (Inr r2, st2)"
    "b_duration r2 = Some (js_round (of_int (t2 - b_startTime b1) / 60000))"
    "checkin_sessions st2 sid = Some s2"
    "s2 = s\<lparr>s_totalBreakTime :=
                 s_totalBreakTime s + js_round (of_int (t1 - b_startTime b) / 60000)\<rparr>
           \<lparr>s_totalBreakTime := s_totalBreakTime (s\<lparr>s_totalBreakTime :=
                 s_totalBreakTime s + js_round (of_int (t1 - b_startTime b) / 60000)\<rparr>)
               + js_round (of_int (t2 - b_startTime b1) / 60000)\<rparr>"
    by blast
  show ?thesis using 1 2 by simp
qed

theorem endBreak_twice_witness:
  "map_of (breaks demo_db ''U1_20250101_1000'') ''break_2000'' = Some demo_break
   \<and> b_status demo_break = Completed
   \<and> checkin_sessions demo_db ''U1_20250101_1000'' = Some demo_session
   \<and> (\<exists>r1 st1 r2 st2 s2.
         endBreak 302000 ''U1_20250101_1000'' ''break_2000'' ''U1'' None demo_db = (Inr r1, st1)
       \<and> endBreak 602000 ''U1_20250101_1000'' ''break_2000'' ''U1'' None st1 = (Inr r2, st2)
       \<and> b_duration r1 = Some 5 \<and> b_duration r2 = Some 10
       \<and> checkin_sessions st2 ''U1_20250101_1000'' = Some s2
       \<and> s_totalBreakTime s2 = 5 + 5 + 10)"
proof -
  have h1: "map_of (breaks demo_db ''U1_20250101_1000'') ''break_2000'' = Some demo_break"
    by (simp add: demo_db_def)
  have h2: "checkin_sessions demo_db ''U1_20250101_1000'' = Some demo_session"
    by (simp add: demo_db_def)
  have r: "js_round 5 = 5" "js_round 10 = 10" by code_simp+
  have c: "b_status demo_break = Completed" by (simp add: demo_break_def)
  show ?thesis
    using h1 h2 c endBreak_twice [OF h1 h2, of 302000 "''U1''" None 602000 None]
    by (auto simp add: demo_session_def demo_break_def r)
qed

subsection \<open>Identifiers\<close>

lemma of_char_digit: "n < 10 \<Longrightarrow> (of_char (digit_char n) :: nat) = 48 + n"
  by (simp add: digit_char_def)

lemma digit_char_inj: "a < 10 \<Longrightarrow> b < 10 \<Longrightarrow> digit_char a = digit_char b \<Longrightarrow> a = b"
proof -
  assume a: "a < 10" and b: "b < 10" and e: "digit_char a = digit_char b"
  from e have "(of_char (digit_char a) :: nat) = of_char (digit_char b)" by (rule arg_cong)
  then have "48 + a = 48 + b" by (simp only: of_char_digit [OF a] of_char_digit [OF b])
  then show "a = b" by (simp only: add_left_cancel)
qed

lemma c95: "(of_char (CHR ''_'') :: nat) = 95" by simp
lemma c45: "(of_char (CHR ''-'') :: nat) = 45" by simp

lemma digit_char_not_underscore: "n < 10 \<Longrightarrow> digit_char n \<noteq> CHR ''_''"
proof
  assume a: "n < 10" and e: "digit_char n = CHR ''_''"
  from e have "(of_char (digit_char n) :: nat) = of_char (CHR ''_'')" by (rule arg_cong)
  then have "48 + n = 95" by (simp only: of_char_digit [OF a] c95)
  with a show False by arith
qed

lemma digit_char_not_minus: "n < 10 \<Longrightarrow> digit_char n \<noteq> CHR ''-''"
proof
  assume a: "n < 10" and e: "digit_char n = CHR ''-''"
  from e have "(of_char (digit_char n) :: nat) = of_char (CHR ''-'')" by (rule arg_cong)
  then have "48 + n = 45" by (simp only: of_char_digit [OF a] c45)
  then show False by arith
qed

lemma show_nat_digits: "c \<in> set (show_nat n) \<Longrightarrow> \<exists>d<10. c = digit_char d"
proof (induction n rule: show_nat.induct)
  case (1 n)
  show ?case
  proof (cases "n < 10")
    case True
    with "1.prems" show ?thesis by (subst (asm) show_nat.simps) auto
  next
    case False
    with "1.prems" have "c \<in> set (show_nat (n div 10)) \<or> c = digit_char (n mod 10)"
      by (subst (asm) show_nat.simps) auto
    then show ?thesis
    proof
      assume "c \<in> set (show_nat (n div 10))"
      with "1.IH" False show ?thesis by simp
    next
      assume "c = digit_char (n mod 10)"
      moreover have "n mod 10 < 10" by simp
      ultimately show ?thesis by blast
    qed
  qed
qed

lemma show_nat_nonempty: "show_nat n \<noteq> []"
  by (subst show_nat.simps) simp

lemma show_nat_inj: "show_nat a = show_nat b \<Longrightarrow> a = b"
proof (induction a arbitrary: b rule: show_nat.induct)
  case (1 a)
  show ?case
  proof (cases "a < 10")
    case True
    have la: "show_nat a = [digit_char a]" using True by (subst show_nat.simps) simp
    show ?thesis
    proof (cases "b < 10")
      case b: True
      have "show_nat b = [digit_char b]" using b by (subst show_nat.simps) simp
      with la "1.prems" True b show ?thesis by (simp add: digit_char_inj)
    next
      case b: False
      have "show_nat b = show_nat (b div 10) @ [digit_char (b mod 10)]"
        using b by (subst show_nat.simps) simp
      with la "1.prems" show_nat_nonempty [of "b div 10"] show ?thesis by simp
    qed
  next
    case False
    have la: "show_nat a = show_nat (a div 10) @ [digit_char (a mod 10)]"
      using False by (subst show_nat.simps) simp
    show ?thesis
    proof (cases "b < 10")
      case b: True
      have "show_nat b = [digit_char b]" using b by (subst show_nat.simps) simp
      with la "1.prems" show_nat_nonempty [of "a div 10"] show ?thesis by simp
    next
      case b: False
      have lb: "show_nat b = show_nat (b div 10) @ [digit_char (b mod 10)]"
        using b by (subst show_nat.simps) simp
      from la lb "1.prems" have e1: "show_nat (a div 10) = show_nat (b div 10)"
        and e2: "digit_char (a mod 10) = digit_char (b mod 10)" by simp_all
      from "1.IH" [OF False e1] have d: "a div 10 = b div 10" .
      have m: "a mod 10 = b mod 10" using e2 by (intro digit_char_inj) simp_all
      from d m show ?thesis by (metis div_mult_mod_eq)
    qed
  qed
qed

lemma show_nat_no_underscore: "CHR ''_'' \<notin> set (show_nat n)"
proof
  assume "CHR ''_'' \<in> set (show_nat n)"
  then obtain d where "d < 10" "CHR ''_'' = digit_char d" using show_nat_digits by blast
  then show False using digit_char_not_underscore [of d] by simp
qed

lemma show_int_chars: "c \<in> set (show_int i) \<Longrightarrow> c \<noteq> CHR ''_''"
  using show_nat_no_underscore by (auto simp add: show_int_def split: if_splits)

lemma show_int_inj: "show_int a = show_int b \<Longrightarrow> a = b"
proof -
  assume e: "show_int a = show_int b"
  have nm: "\<And>n. hd (show_nat n) \<noteq> CHR ''-''"
  proof -
    fix n
    have "hd (show_nat n) \<in> set (show_nat n)" using show_nat_nonempty by simp
    then obtain d where "d < 10" "hd (show_nat n) = digit_char d" using show_nat_digits by blast
    then show "hd (show_nat n) \<noteq> CHR ''-''" using digit_char_not_minus by simp
  qed
  show ?thesis
  proof (cases "a < 0")
    case True
    show ?thesis
    proof (cases "b < 0")
      case b: True
      with True e have "show_nat (nat (- a)) = show_nat (nat (- b))" by (simp add: show_int_def)
      then have "nat (- a) = nat (- b)" by (rule show_nat_inj)
      with True b show ?thesis by simp
    next
      case b: False
      with True e have "CHR ''-'' # show_nat (nat (- a)) = show_nat (nat b)"
        by (simp add: show_int_def)
      then have "hd (show_nat (nat b)) = CHR ''-''" by (metis list.sel(1))
      with nm show ?thesis by blast
    qed
  next
    case False
    show ?thesis
    proof (cases "b < 0")
      case b: True
      with False e have "show_nat (nat a) = CHR ''-'' # show_nat (nat (- b))"
        by (simp add: show_int_def)
      then have "hd (show_nat (nat a)) = CHR ''-''" by (metis list.sel(1))
      with nm show ?thesis by blast
    next
      case b: False
      with False e have "show_nat (nat a) = show_nat (nat b)" by (simp add: show_int_def)
      then have "nat a = nat b" by (rule show_nat_inj)
      with False b show ?thesis by simp
    qed
  qed
qed

lemma split_last_sep:
  assumes "xs @ c # s1 = ys @ c # s2" and "c \<notin> set s1" and "c \<notin> set s2"
  shows "xs = ys \<and> s1 = s2"
proof -
  have "length s1 = length s2"
  proof (rule ccontr)
    assume ne: "length s1 \<noteq> length s2"
    show False
    proof (cases "length s1 < length s2")
      case True
      from assms(1) have "rev s1 @ c # rev xs = rev s2 @ c # rev ys" 
        by (metis rev.simps(2) rev_append append_assoc append_Cons append_Nil)
      then have "(rev s2 @ c # rev ys) ! length s1 = c"
        by (metis length_rev nth_append_length)
      moreover have "(rev s2 @ c # rev ys) ! length s1 = rev s2 ! length s1"
        using True by (simp add: nth_append)
      moreover have "rev s2 ! length s1 \<in> set s2" using True by (metis length_rev nth_mem set_rev)
      ultimately show False using assms(3) by simp
    next
      case False
      with ne have lt: "length s2 < length s1" by simp
      from assms(1) have "rev s1 @ c # rev xs = rev s2 @ c # rev ys" 
        by (metis rev.simps(2) rev_append append_assoc append_Cons append_Nil)
      then have "(rev s1 @ c # rev xs) ! length s2 = c"
        by (metis length_rev nth_append_length)
      moreover have "(rev s1 @ c # rev xs) ! length s2 = rev s1 ! length s2"
        using lt by (simp add: nth_append)
      moreover have "rev s1 ! length s2 \<in> set s1" using lt by (metis length_rev nth_mem set_rev)
      ultimately show False using assms(2) by simp
    qed
  qed
  with assms(1) show ?thesis by (metis append_eq_append_conv length_Cons list.inject)
qed

lemma generateSessionId_inj:
  assumes "generateSessionId toISO u1 t1 = generateSessionId toISO u2 t2"
  shows "u1 = u2 \<and> t1 = t2"
proof -
  let ?d = "\<lambda>t. filter (\<lambda>c. c \<noteq> CHR ''-'') (takeWhile (\<lambda>c. c \<noteq> CHR ''T'') (toISO t))"
  from assms have e: "(u1 @ ''_'' @ ?d t1) @ CHR ''_'' # show_int t1
      = (u2 @ ''_'' @ ?d t2) @ CHR ''_'' # show_int t2"
    by (simp add: generateSessionId_def Let_def)
  have n1: "CHR ''_'' \<notin> set (show_int t1)" and n2: "CHR ''_'' \<notin> set (show_int t2)"
    using show_int_chars by blast+
  from split_last_sep [OF e n1 n2] have p: "u1 @ ''_'' @ ?d t1 = u2 @ ''_'' @ ?d t2"
    and s: "show_int t1 = show_int t2" by simp_all
  from s have t: "t1 = t2" by (rule show_int_inj)
  with p show ?thesis by simp
qed

lemma generateBreakId_inj: "generateBreakId t1 = generateBreakId t2 \<Longrightarrow> t1 = t2"
  by (simp add: generateBreakId_def show_int_inj)

lemma generateStatusUpdateId_inj:
  "generateStatusUpdateId t1 = generateStatusUpdateId t2 \<Longrightarrow> t1 = t2"
  by (simp add: generateStatusUpdateId_def show_int_inj)

text \<open>
  Claim C8, as the code has it. A session id determines the user and the clock reading
  it was made from, so two session ids are equal only for the same user at the same
  millisecond. A break id and a status-update id are made from the clock reading alone:
  they are distinct exactly when the readings differ, whoever the user and whatever
  the session.
\<close>

theorem identifiers_distinct:
  "(generateSessionId toISO u1 t1 = generateSessionId toISO u2 t2 \<longleftrightarrow> u1 = u2 \<and> t1 = t2)
   \<and> (generateBreakId t1 = generateBreakId t2 \<longleftrightarrow> t1 = t2)
   \<and> (generateStatusUpdateId t1 = generateStatusUpdateId t2 \<longleftrightarrow> t1 = t2)"
  using generateSessionId_inj [of toISO u1 t1 u2 t2] generateBreakId_inj [of t1 t2]
    generateStatusUpdateId_inj [of t1 t2]
  by blast

text \<open>
  Two users in two sessions start breaks of two types within the same millisecond:
  the two break records carry the same \<open>breakId\<close>.
\<close>

theorem breakId_collision:
  "(case startBreak 5000 5000 ''U1_20250101_1000'' ''U1'' Short None demo_two_users_db of
      (Inr b1, _) \<Rightarrow>
        (case startBreak 5000 5001 ''U2_20250101_1500'' ''U2'' Lunch None demo_two_users_db of
           (Inr b2, _) \<Rightarrow> b_userId b1 \<noteq> b_userId b2 \<and> b_sessionId b1 \<noteq> b_sessionId b2
                           \<and> b_type b1 \<noteq> b_type b2 \<and> b_breakId b1 = b_breakId b2
         | (Inl _, _) \<Rightarrow> False)
    | (Inl _, _) \<Rightarrow> False)"
  by (simp add: startBreak_def update_session_def demo_two_users_db_def demo_db_def
      empty_db_def Let_def getUserStatus_def)

subsection \<open>The break-end summary\<close>

lemma startBreak_expectedDuration:
  assumes "startBreak idNow now sid uid bt nts st = (Inr b, st')"
  shows "b_expectedDuration b = bc_duration (BREAK_TYPES bt)"
  using assms
  by (auto simp add: startBreak_def Let_def update_session_def
      split: option.splits prod.splits sum.splits)

lemma durationText_nonzero:
  assumes "b_duration b = Some d" and "bc_duration (BREAK_TYPES (b_type b)) = Some e"
    and "d \<noteq> 0"
  shows "durationText b = show_int d @ '' minutes'' @
     (if d - e > 5 then '' ('' @ show_int (d - e) @ '' min longer than expected)''
      else if d - e < - 5 then '' ('' @ show_int (abs (d - e)) @ '' min shorter than expected)''
      else [])"
  using assms by (cases "b_type b") (auto simp add: durationText_def Let_def)

lemma durationText_meeting:
  assumes "b_type b = Meeting" and "b_duration b = Some d"
  shows "durationText b = show_int d @ '' minutes''"
  using assms by (simp add: durationText_def)

text \<open>
  Claim C9 says that a break whose duration differs from the expected duration of its
  type by more than five minutes is flagged in the break-end summary. The handler tests
  \<open>breakConfig.duration && endedBreak.duration\<close>, and a duration of 0 is false there:
  user \<open>U1\<close>, on a short break (expected 15 minutes) since instant 600000, ends it 15
  seconds later. The duration is 0 minutes, 15 minutes short of the expected one, and
  the summary reads \<open>0 minutes\<close> with no flag.
\<close>

theorem zero_minute_break_not_flagged:
  "fst (handleBreakEnd 615000 ''U1'' [] demo_onbreak_db) = BreakEnded ''0 minutes''"
  by code_simp

subsection \<open>Ordered queries\<close>

lemma set_orderBy_desc [simp]: "set (orderBy_desc f docs) = snd ` set docs"
  by (simp add: orderBy_desc_def)

lemma sort_key_Nil_iff: "sort_key k xs = [] \<longleftrightarrow> xs = []"
  by (metis length_0_conv length_sort)

lemma orderBy_desc_Nil [simp]: "orderBy_desc f docs = [] \<longleftrightarrow> docs = []"
  by (simp add: orderBy_desc_def sort_key_Nil_iff)

lemma last_sort_key_max:
  assumes "xs \<noteq> []" and "x \<in> set xs"
  shows "k x \<le> k (last (sort_key k xs))"
proof -
  let ?ys = "sort_key k xs"
  have ne: "?ys \<noteq> []" using assms(1) by (metis length_0_conv length_sort)
  have s: "sorted (map k ?ys)" by simp
  have "x \<in> set ?ys" using assms(2) by simp
  then obtain i where i: "i < length ?ys" "?ys ! i = x" by (auto simp add: in_set_conv_nth simp del: set_sort length_sort)
  have "map k ?ys ! i \<le> map k ?ys ! (length ?ys - 1)"
    using s i(1) by (intro sorted_nth_mono) auto
  then show ?thesis using i ne by (simp add: last_conv_nth del: length_sort)
qed

lemma hd_orderBy_desc_max:
  assumes "(k, d) \<in> set docs"
  shows "f d \<le> f (hd (orderBy_desc f docs))"
proof -
  have ne: "docs \<noteq> []" using assms by auto
  let ?key = "\<lambda>(k, d). (f d, k)"
  have ne': "sort_key ?key docs \<noteq> []" using ne by (metis length_0_conv length_sort)
  have "?key (k, d) \<le> ?key (last (sort_key ?key docs))"
    using last_sort_key_max [OF ne assms, of ?key] .
  then have "f d \<le> f (snd (last (sort_key ?key docs)))"
    by (cases "last (sort_key ?key docs)") (auto simp add: less_eq_prod_def)
  moreover have "hd (orderBy_desc f docs) = snd (last (sort_key ?key docs))"
    using ne' by (simp add: orderBy_desc_def hd_map hd_rev del: length_sort)
  ultimately show ?thesis by simp
qed

lemma hd_orderBy_desc_Max:
  assumes "docs \<noteq> []"
  shows "f (hd (orderBy_desc f docs)) = Max (f ` snd ` set docs)"
proof (rule sym, rule Max_eqI)
  show "finite (f ` snd ` set docs)" by simp
  show "\<And>y. y \<in> f ` snd ` set docs \<Longrightarrow> y \<le> f (hd (orderBy_desc f docs))"
    using hd_orderBy_desc_max by fastforce
  have "hd (orderBy_desc f docs) \<in> set (orderBy_desc f docs)"
    using assms by (intro hd_in_set) simp
  then show "f (hd (orderBy_desc f docs)) \<in> f ` snd ` set docs" by simp
qed

subsection \<open>The reminder check\<close>

lemma getUserCurrentState_None:
  "getUserCurrentState u st = None \<longleftrightarrow> user_status_col st u = None"
  by (auto simp add: getUserCurrentState_def getUserStatus_def Let_def split: option.splits)

lemma getUserCurrentState_status:
  "getUserCurrentState u st = Some us \<Longrightarrow> user_status_col st u = Some (ucs_status us)"
  by (auto simp add: getUserCurrentState_def getUserStatus_def Let_def
      split: option.splits if_splits)

lemma getUserCurrentState_session:
  assumes "user_status_col st u = Some ust" and "us_currentSessionId ust = Some sid"
    and "sid \<noteq> []" and "checkin_sessions st sid = Some s"
  shows "\<exists>us. getUserCurrentState u st = Some us \<and> ucs_status us = ust
     \<and> ucs_currentSession us = Some s
     \<and> ucs_recentStatusUpdates us = Some (getSessionStatusUpdates sid (Some 5) st)"
  using assms
  by (auto simp add: getUserCurrentState_def getUserStatus_def getCheckinSession_def Let_def
      truthy_def split: option.splits)

lemma recent_updates_cases:
  "(case getSessionStatusUpdates sid (Some 5) st of [] \<Rightarrow> a | u # _ \<Rightarrow> b (u_timestamp u))
   = (if status_updates st sid = [] then a
      else b (Max (u_timestamp ` snd ` set (status_updates st sid))))"
proof (cases "status_updates st sid = []")
  case True
  then show ?thesis by (simp add: getSessionStatusUpdates_def orderBy_desc_def)
next
  case False
  let ?q = "orderBy_desc u_timestamp (status_updates st sid)"
  have ne: "?q \<noteq> []" using False by simp
  then obtain x xs where q: "?q = x # xs" by (cases ?q) auto
  have "u_timestamp (hd ?q) = Max (u_timestamp ` snd ` set (status_updates st sid))"
    using hd_orderBy_desc_Max [OF False] .
  with q have "u_timestamp x = Max (u_timestamp ` snd ` set (status_updates st sid))" by simp
  with q False show ?thesis by (simp add: getSessionStatusUpdates_def)
qed

lemma sendStatusReminder_fst:
  assumes "getUserCurrentState u st = Some us" and "us_status (ucs_status us) = Some CheckedIn"
  shows "fst (sendStatusReminder deliver sentAt u st) = deliver u"
  using assms by (simp add: sendStatusReminder_def split: option.splits)

subsection \<open>The status-update ledger\<close>

lemma insort_key_append_max:
  "\<forall>x\<in>set xs. k x \<le> k y \<Longrightarrow> k a \<le> k y \<Longrightarrow> insort_key k a (xs @ [y]) = insort_key k a xs @ [y]"
  by (induction xs) auto

lemma sort_key_append_max:
  "\<forall>x\<in>set xs. k x \<le> k y \<Longrightarrow> sort_key k (xs @ [y]) = sort_key k xs @ [y]"
proof (induction xs)
  case Nil
  then show ?case by simp
next
  case (Cons a xs)
  then have ih: "sort_key k (xs @ [y]) = sort_key k xs @ [y]" by simp
  have "sort_key k ((a # xs) @ [y]) = insort_key k a (sort_key k (xs @ [y]))"
    by (simp add: sort_key_def)
  also have "\<dots> = insort_key k a (sort_key k xs @ [y])" by (simp only: ih)
  also have "\<dots> = insort_key k a (sort_key k xs) @ [y]"
    using Cons.prems by (intro insort_key_append_max) auto
  finally show ?case by (simp add: sort_key_def)
qed

lemma update_fresh: "k \<notin> fst ` set al \<Longrightarrow> AList.update k v al = al @ [(k, v)]"
  by (induction al) auto

lemma linked_from_append:
  "linked_from p (us @ [u]) \<longleftrightarrow>
     linked_from p us \<and> u_previousStatus u = (if us = [] then p else Some (u_status (last us)))"
  by (induction us arbitrary: p) auto


lemma chronological_eq:
  "chronological sid st = map snd (sort_key (\<lambda>(k, d). (u_timestamp d, k)) (status_updates st sid))"
  by (simp add: chronological_def getSessionStatusUpdates_def orderBy_desc_def rev_map)

lemma getLatestStatusUpdate_last:
  "getLatestStatusUpdate sid st
     = (if chronological sid st = [] then None else Some (last (chronological sid st)))"
proof -
  let ?q = "orderBy_desc u_timestamp (status_updates st sid)"
  have c: "chronological sid st = rev ?q"
    by (simp add: chronological_def getSessionStatusUpdates_def)
  show ?thesis
  proof (cases ?q)
    case Nil
    then show ?thesis using c
      by (simp add: getLatestStatusUpdate_def getSessionStatusUpdates_def orderBy_desc_def)
  next
    case (Cons x xs)
    then show ?thesis using c
      by (simp add: getLatestStatusUpdate_def getSessionStatusUpdates_def)
  qed
qed


lemma update_session_updates [simp]:
  "status_updates (snd (update_session sid f st)) = status_updates st"
  by (simp add: update_session_def split: option.splits)

lemma addStatusUpdate_updates:
  "status_updates (snd (addStatusUpdate idNow now sid uid un ws st))
     = (status_updates st)(sid := AList.update (generateStatusUpdateId idNow)
          \<lparr>u_updateId = generateStatusUpdateId idNow, u_sessionId = sid, u_userId = uid,
           u_username = un, u_status = ws, u_timestamp = now,
           u_previousStatus = map_option u_status (getLatestStatusUpdate sid st)\<rparr>
          (status_updates st sid))"
  by (simp add: addStatusUpdate_def Let_def update_session_def getUserStatus_def
      split: option.splits prod.splits sum.splits)

lemma chronological_cong:
  "status_updates st' sid = status_updates st sid \<Longrightarrow> chronological sid st' = chronological sid st"
  by (simp add: chronological_eq)

lemma updates_inv_cong:
  "status_updates st' = status_updates st \<Longrightarrow> updates_inv t st' = updates_inv t st"
  by (simp add: updates_inv_def chronological_eq)

lemma updates_inv_mono:
  assumes "updates_inv t st" and "t \<le> t'"
  shows "updates_inv t' st"
  unfolding updates_inv_def
proof (intro allI conjI)
  fix sid
  from assms(1) have a: "distinct (map fst (status_updates st sid))"
    and b: "\<forall>(k, u) \<in> set (status_updates st sid).
              u_timestamp u \<le> t \<and> (\<exists>t' \<le> t. k = generateStatusUpdateId t')"
    and c: "sorted_wrt (\<lambda>a b. u_timestamp a < u_timestamp b) (chronological sid st)"
    and d: "linked_from None (chronological sid st)"
    by (simp_all add: updates_inv_def)
  show "distinct (map fst (status_updates st sid))" by (rule a)
  show "sorted_wrt (\<lambda>a b. u_timestamp a < u_timestamp b) (chronological sid st)" by (rule c)
  show "linked_from None (chronological sid st)" by (rule d)
  show "\<forall>(k, u) \<in> set (status_updates st sid).
              u_timestamp u \<le> t' \<and> (\<exists>t'' \<le> t'. k = generateStatusUpdateId t'')"
  proof (clarify, intro conjI)
    fix k u assume m: "(k, u) \<in> set (status_updates st sid)"
    with b have 1: "u_timestamp u \<le> t" and 2: "\<exists>t' \<le> t. k = generateStatusUpdateId t'" by auto
    from 1 assms(2) show "u_timestamp u \<le> t'" by simp
    from 2 obtain x where "x \<le> t" "k = generateStatusUpdateId x" by blast
    with assms(2) show "\<exists>t'' \<le> t'. k = generateStatusUpdateId t''" by (intro exI [of _ x]) simp
  qed
qed

lemma addStatusUpdate_inv:
  assumes inv: "updates_inv t st" and lt: "t < idNow" and le: "idNow \<le> now"
  shows "updates_inv now (snd (addStatusUpdate idNow now sid uid un ws st))"
proof -
  let ?st' = "snd (addStatusUpdate idNow now sid uid un ws st)"
  let ?nid = "generateStatusUpdateId idNow"
  let ?new = "\<lparr>u_updateId = ?nid, u_sessionId = sid, u_userId = uid,
           u_username = un, u_status = ws, u_timestamp = now,
           u_previousStatus = map_option u_status (getLatestStatusUpdate sid st)\<rparr>"
  let ?docs = "status_updates st sid"
  let ?key = "\<lambda>(k, d). (u_timestamp d, k :: string)"
  have tn: "t \<le> now" using lt le by simp
  have old: "updates_inv now st" using updates_inv_mono [OF inv tn] .
  from inv have a: "distinct (map fst ?docs)"
    and b: "\<forall>(k, u) \<in> set ?docs. u_timestamp u \<le> t \<and> (\<exists>t' \<le> t. k = generateStatusUpdateId t')"
    and c: "sorted_wrt (\<lambda>a b. u_timestamp a < u_timestamp b) (chronological sid st)"
    and d: "linked_from None (chronological sid st)"
    by (simp_all add: updates_inv_def)
  have fresh: "?nid \<notin> fst ` set ?docs"
  proof
    assume "?nid \<in> fst ` set ?docs"
    then obtain u where "(?nid, u) \<in> set ?docs" by auto
    with b obtain t' where "t' \<le> t" "?nid = generateStatusUpdateId t'" by auto
    then have "idNow = t'" using generateStatusUpdateId_inj by blast
    with \<open>t' \<le> t\<close> lt show False by simp
  qed
  have upd: "status_updates ?st' = (status_updates st)(sid := ?docs @ [(?nid, ?new)])"
    using addStatusUpdate_updates [of idNow now sid uid "un" ws st] update_fresh [OF fresh]
    by simp
  have keys: "\<forall>x\<in>set ?docs. ?key x \<le> ?key (?nid, ?new)"
  proof
    fix x assume "x \<in> set ?docs"
    with b have "u_timestamp (snd x) \<le> t" by (cases x) auto
    with lt le have "u_timestamp (snd x) < now" by simp
    then show "?key x \<le> ?key (?nid, ?new)" by (cases x) (simp add: less_eq_prod_def)
  qed
  have chron: "chronological sid ?st' = chronological sid st @ [?new]"
    using sort_key_append_max [OF keys] by (simp add: chronological_eq upd)
  have setc: "set (chronological sid st) = snd ` set ?docs" by (simp add: chronological_eq)
  show ?thesis
    unfolding updates_inv_def
  proof (intro allI)
    fix s
    show "distinct (map fst (status_updates ?st' s))
        \<and> (\<forall>(k, u) \<in> set (status_updates ?st' s).
              u_timestamp u \<le> now \<and> (\<exists>t' \<le> now. k = generateStatusUpdateId t'))
        \<and> sorted_wrt (\<lambda>a b. u_timestamp a < u_timestamp b) (chronological s ?st')
        \<and> linked_from None (chronological s ?st')"
    proof (cases "s = sid")
      case False
      then have "status_updates ?st' s = status_updates st s" by (simp add: upd)
      moreover from this have "chronological s ?st' = chronological s st"
        by (rule chronological_cong)
      ultimately show ?thesis using old by (simp add: updates_inv_def)
    next
      case True
      have 1: "distinct (map fst (status_updates ?st' sid))"
        using a fresh by (simp add: upd)
      have 2: "\<forall>(k, u) \<in> set (status_updates ?st' sid).
              u_timestamp u \<le> now \<and> (\<exists>t' \<le> now. k = generateStatusUpdateId t')"
      proof (clarify)
        fix k u assume "(k, u) \<in> set (status_updates ?st' sid)"
        then have "(k, u) \<in> set ?docs \<or> (k, u) = (?nid, ?new)" by (auto simp add: upd)
        then show "u_timestamp u \<le> now \<and> (\<exists>t' \<le> now. k = generateStatusUpdateId t')"
        proof
          assume "(k, u) \<in> set ?docs"
          with old show ?thesis by (auto simp add: updates_inv_def)
        next
          assume "(k, u) = (?nid, ?new)"
          with le show ?thesis by auto
        qed
      qed
      have 3: "sorted_wrt (\<lambda>a b. u_timestamp a < u_timestamp b) (chronological sid ?st')"
      proof -
        have "\<forall>x\<in>set (chronological sid st). u_timestamp x < now"
        proof
          fix x assume "x \<in> set (chronological sid st)"
          then obtain k where "(k, x) \<in> set ?docs" using setc by auto
          with b have "u_timestamp x \<le> t" by auto
          with lt le show "u_timestamp x < now" by simp
        qed
        with c show ?thesis by (simp add: chron sorted_wrt_append)
      qed
      have 4: "linked_from None (chronological sid ?st')"
        using d by (simp add: chron linked_from_append getLatestStatusUpdate_last)
      from 1 2 3 4 True show ?thesis by simp
    qed
  qed
qed


lemma createCheckinSession_updates:
  "createCheckinSession toISO idNow now uid un nts st = (r, st')
     \<Longrightarrow> status_updates st' = status_updates st"
  by (auto simp add: createCheckinSession_def Let_def)

lemma completeCheckinSession_updates:
  "completeCheckinSession t sid nts st = (r, st') \<Longrightarrow> status_updates st' = status_updates st"
  by (auto simp add: completeCheckinSession_def Let_def split: option.splits)

lemma update_session_updates':
  "update_session sid f st = (r, st') \<Longrightarrow> status_updates st' = status_updates st"
  by (auto simp add: update_session_def split: option.splits)

lemma startBreak_updates:
  "startBreak idNow now sid uid bt nts st = (r, st') \<Longrightarrow> status_updates st' = status_updates st"
  by (auto simp add: startBreak_def Let_def getUserStatus_def update_session_def
      split: option.splits prod.splits sum.splits)

lemma endBreak_updates:
  "endBreak t sid bid uid nts st = (r, st') \<Longrightarrow> status_updates st' = status_updates st"
  by (auto simp add: endBreak_def Let_def getUserStatus_def update_session_def
      split: option.splits prod.splits sum.splits)

lemma handleCheckin_updates:
  "status_updates (snd (handleCheckin toISO idNow now uid un nts st)) = status_updates st"
  by (auto simp add: handleCheckin_def dest: createCheckinSession_updates
      split: option.splits prod.splits)

lemma handleCheckout_updates:
  "status_updates (snd (handleCheckout endNow checkoutNow uid nts st)) = status_updates st"
  by (auto simp add: handleCheckout_def
      dest!: endBreak_updates completeCheckinSession_updates
      split: option.splits prod.splits sum.splits if_splits)

lemma handleBreakStart_updates:
  "status_updates (snd (handleBreakStart idNow now uid bt nts st)) = status_updates st"
  by (auto simp add: handleBreakStart_def dest!: startBreak_updates
      split: option.splits prod.splits sum.splits)

lemma handleBreakEnd_updates:
  "status_updates (snd (handleBreakEnd now uid nts st)) = status_updates st"
  by (auto simp add: handleBreakEnd_def dest!: endBreak_updates
      split: option.splits prod.splits sum.splits)

lemma handleStatusUpdate_inv:
  assumes "updates_inv t st" and "t < idNow" and "idNow \<le> now"
  shows "updates_inv now (snd (handleStatusUpdate idNow now uid un ws st))"
proof -
  have tn: "t \<le> now" using assms by simp
  have "snd (handleStatusUpdate idNow now uid un ws st) = st
      \<or> (\<exists>sid. snd (handleStatusUpdate idNow now uid un ws st)
            = snd (addStatusUpdate idNow now sid uid un ws st))"
    by (auto simp add: handleStatusUpdate_def split: option.splits prod.splits sum.splits)
      (metis snd_conv)+
  then show ?thesis
    using updates_inv_mono [OF assms(1) tn] addStatusUpdate_inv [OF assms] by auto
qed

lemma exec_updates_inv:
  assumes "updates_inv t st" and "t < hd (clock_reads c)" and "sorted (clock_reads c)"
  shows "updates_inv (last (clock_reads c)) (snd (exec toISO c st))"
proof (cases c)
  case (StatusUpdate idNow now uid un ws)
  with assms show ?thesis using handleStatusUpdate_inv [of t st idNow now] by simp
next
  case (Checkin idNow now uid un nts)
  with assms have "t \<le> now" by simp
  from updates_inv_mono [OF assms(1) this] Checkin show ?thesis
    by (simp add: updates_inv_cong [OF handleCheckin_updates])
next
  case (Checkout endNow checkoutNow uid nts)
  with assms have "t \<le> checkoutNow" by simp
  from updates_inv_mono [OF assms(1) this] Checkout show ?thesis
    by (simp add: updates_inv_cong [OF handleCheckout_updates])
next
  case (BreakStart idNow now uid bt nts)
  with assms have "t \<le> now" by simp
  from updates_inv_mono [OF assms(1) this] BreakStart show ?thesis
    by (simp add: updates_inv_cong [OF handleBreakStart_updates])
next
  case (BreakEnd now uid nts)
  with assms have "t \<le> now" by simp
  from updates_inv_mono [OF assms(1) this] BreakEnd show ?thesis
    by (simp add: updates_inv_cong [OF handleBreakEnd_updates])
qed

lemma run_updates_inv:
  "updates_inv t st \<Longrightarrow> advancing t cmds \<Longrightarrow> \<exists>t'. updates_inv t' (run toISO cmds st)"
proof (induction cmds arbitrary: t st)
  case Nil
  then show ?case by auto
next
  case (Cons c cmds)
  from Cons.prems have "updates_inv (last (clock_reads c)) (snd (exec toISO c st))"
    using exec_updates_inv [of t st c toISO] by simp
  moreover from Cons.prems have "advancing (last (clock_reads c)) cmds" by simp
  ultimately show ?case using Cons.IH by simp
qed





subsection \<open>Evaluating the model on concrete stores\<close>

lemma digit_char_vals:
  "digit_char 0 = CHR ''0''" "digit_char 1 = CHR ''1''" "digit_char 2 = CHR ''2''"
  "digit_char 3 = CHR ''3''" "digit_char 4 = CHR ''4''" "digit_char 5 = CHR ''5''"
  "digit_char 6 = CHR ''6''" "digit_char 7 = CHR ''7''" "digit_char 8 = CHR ''8''"
  "digit_char 9 = CHR ''9''" "digit_char (Suc 0) = CHR ''1''"
  by code_simp+

lemmas id_defs = generateSessionId_def generateStatusUpdateId_def generateBreakId_def
  getDateString_def demo_toISO_def show_int_def show_nat.simps digit_char_vals

lemmas store_defs = createCheckinSession_def completeCheckinSession_def startBreak_def
  endBreak_def addStatusUpdate_def getUserCurrentState_def getUserStatus_def
  getCheckinSession_def updateUserStatus_def update_session_def getSessionStatusUpdates_def
  getLatestStatusUpdate_def getSessionBreaks_def orderBy_desc_def merge_user_status_def
  merge_current_session_def merge_opt_def no_update_def truthy_def empty_db_def Let_def

lemmas handler_defs = handleCheckin_def handleCheckout_def handleBreakStart_def
  handleBreakEnd_def handleStatusUpdate_def



subsection \<open>The session machine\<close>

lemma sessions_inv_frame [simp]:
  "sessions_inv toISO (st\<lparr>breaks := b\<rparr>) = sessions_inv toISO st"
  "sessions_inv toISO (st\<lparr>status_updates := su\<rparr>) = sessions_inv toISO st"
  "sessions_inv toISO (st\<lparr>status_reminders := sr\<rparr>) = sessions_inv toISO st"
  by (simp_all add: sessions_inv_def)

lemma sessions_inv_touch_session:
  assumes inv: "sessions_inv toISO st" and old: "checkin_sessions st sid = Some s"
    and same: "s_sessionId s' = s_sessionId s" "s_userId s' = s_userId s"
      "s_status s' = s_status s"
  shows "sessions_inv toISO (st\<lparr>checkin_sessions := (checkin_sessions st)(sid \<mapsto> s')\<rparr>)"
  using inv old same unfolding sessions_inv_def
  by (auto split: if_splits)

lemma sessions_inv_touch_user:
  assumes inv: "sessions_inv toISO st" and old: "user_status_col st u = Some us"
    and ptr: "us_currentSessionId us' = us_currentSessionId us"
    and stat: "us_status us' = us_status us \<or> us_status us' = Some CheckedIn
               \<or> us_status us' = Some OnBreak"
  shows "sessions_inv toISO (st\<lparr>user_status_col := (user_status_col st)(u \<mapsto> us')\<rparr>)"
proof -
  let ?st' = "st\<lparr>user_status_col := (user_status_col st)(u \<mapsto> us')\<rparr>"
  have c1: "\<forall>sid s. checkin_sessions ?st' sid = Some s \<longrightarrow>
          s_sessionId s = sid \<and> (\<exists>t. sid = generateSessionId toISO (s_userId s) t)"
    using inv by (simp add: sessions_inv_def)
  have c2: "\<forall>v vs sid. user_status_col ?st' v = Some vs \<and> us_currentSessionId vs = Some sid \<longrightarrow>
          (\<exists>t. sid = generateSessionId toISO v t)"
  proof (intro allI impI)
    fix v vs sid
    assume a: "user_status_col ?st' v = Some vs \<and> us_currentSessionId vs = Some sid"
    show "\<exists>t. sid = generateSessionId toISO v t"
    proof (cases "v = u")
      case True
      with a ptr have "us_currentSessionId us = Some sid" by simp
      with inv old True show ?thesis unfolding sessions_inv_def by blast
    next
      case False
      with a inv show ?thesis unfolding sessions_inv_def by auto
    qed
  qed
  have c3: "\<forall>sid s. checkin_sessions ?st' sid = Some s \<and> s_status s = Active \<longrightarrow>
          (\<exists>vs. user_status_col ?st' (s_userId s) = Some vs
             \<and> (us_status vs = Some CheckedIn \<or> us_status vs = Some OnBreak)
             \<and> us_currentSessionId vs = Some sid)"
  proof (intro allI impI)
    fix sid s
    assume a: "checkin_sessions ?st' sid = Some s \<and> s_status s = Active"
    then have "checkin_sessions st sid = Some s \<and> s_status s = Active" by simp
    with inv obtain vs where vs: "user_status_col st (s_userId s) = Some vs"
        "us_status vs = Some CheckedIn \<or> us_status vs = Some OnBreak"
        "us_currentSessionId vs = Some sid"
      unfolding sessions_inv_def by blast
    show "\<exists>vs. user_status_col ?st' (s_userId s) = Some vs
            \<and> (us_status vs = Some CheckedIn \<or> us_status vs = Some OnBreak)
            \<and> us_currentSessionId vs = Some sid"
    proof (cases "s_userId s = u")
      case True
      with vs old have e: "vs = us" by simp
      from True e vs ptr stat show ?thesis by auto
    next
      case False
      with vs show ?thesis by simp
    qed
  qed
  show ?thesis unfolding sessions_inv_def by (intro conjI) (rule c1, rule c2, rule c3)
qed

lemma merge_user_status_fields [simp]:
  "us_status (merge_user_status old p) = merge_opt (us_status old) (us_status p)"
  "us_currentSessionId (merge_user_status old p)
     = merge_opt (us_currentSessionId old) (us_currentSessionId p)"
  "us_currentSession (merge_user_status old p)
     = merge_current_session (us_currentSession old) (us_currentSession p)"
  by (simp_all add: merge_user_status_def)

lemma merge_opt_simps [simp]:
  "merge_opt old None = old" "merge_opt old (Some v) = Some v"
  by (simp_all add: merge_opt_def)

lemma no_update_fields [simp]:
  "us_status no_update = None" "us_currentSessionId no_update = None"
  "us_currentSession no_update = None"
  by (simp_all add: no_update_def)

lemma sessions_inv_update_session:
  assumes "sessions_inv toISO st"
    and "\<And>s. s_sessionId (f s) = s_sessionId s \<and> s_userId (f s) = s_userId s
           \<and> s_status (f s) = s_status s"
  shows "sessions_inv toISO (snd (update_session sid f st))"
proof (cases "checkin_sessions st sid")
  case None
  with assms(1) show ?thesis by (simp add: update_session_def)
next
  case (Some s)
  with sessions_inv_touch_session [OF assms(1) Some, of "f s"] assms(2)
  show ?thesis by (simp add: update_session_def)
qed

lemma sessions_inv_updateUserStatus:
  assumes "sessions_inv toISO st" and "user_status_col st u = Some us"
    and "us_currentSessionId p = None"
    and "us_status p = None \<or> us_status p = Some CheckedIn \<or> us_status p = Some OnBreak"
  shows "sessions_inv toISO (updateUserStatus u p st)"
proof -
  have "sessions_inv toISO (st\<lparr>user_status_col :=
      (user_status_col st)(u \<mapsto> merge_user_status us p)\<rparr>)"
    using assms(3,4) by (intro sessions_inv_touch_user [OF assms(1,2)]) auto
  with assms(2) show ?thesis by (simp add: updateUserStatus_def)
qed


lemma quiet_step_inv:
  assumes inv: "sessions_inv toISO st" and q: "quiet_step st st'"
  shows "sessions_inv toISO st'"
proof -
  from q have S: "\<And>sid. case checkin_sessions st' sid of
                None \<Rightarrow> checkin_sessions st sid = None
              | Some s' \<Rightarrow>
                  (case checkin_sessions st sid of
                     None \<Rightarrow> False
                   | Some s \<Rightarrow> s_sessionId s' = s_sessionId s \<and> s_userId s' = s_userId s
                       \<and> s_status s' = s_status s)"
    unfolding quiet_step_def by blast
  from q have U: "\<And>u. case user_status_col st' u of
              None \<Rightarrow> user_status_col st u = None
            | Some us' \<Rightarrow>
                (case user_status_col st u of
                   None \<Rightarrow> False
                 | Some us \<Rightarrow> us_currentSessionId us' = us_currentSessionId us
                     \<and> (us_status us' = us_status us \<or> us_status us' = Some CheckedIn
                          \<or> us_status us' = Some OnBreak))"
    unfolding quiet_step_def by blast
  have qs: "\<exists>s. checkin_sessions st sid = Some s \<and> s_sessionId s' = s_sessionId s
        \<and> s_userId s' = s_userId s \<and> s_status s' = s_status s"
    if "checkin_sessions st' sid = Some s'" for sid s'
    using S [of sid] that by (cases "checkin_sessions st sid") auto
  have qu: "\<exists>us. user_status_col st u = Some us
        \<and> us_currentSessionId us' = us_currentSessionId us"
    if "user_status_col st' u = Some us'" for u us'
    using U [of u] that by (cases "user_status_col st u") auto
  have qv: "\<exists>us'. user_status_col st' u = Some us'
        \<and> us_currentSessionId us' = us_currentSessionId us
        \<and> (us_status us' = us_status us \<or> us_status us' = Some CheckedIn
             \<or> us_status us' = Some OnBreak)"
    if "user_status_col st u = Some us" for u us
    using U [of u] that by (cases "user_status_col st' u") auto
  have c1: "\<forall>sid s. checkin_sessions st' sid = Some s \<longrightarrow>
          s_sessionId s = sid \<and> (\<exists>t. sid = generateSessionId toISO (s_userId s) t)"
  proof (intro allI impI)
    fix sid s' assume "checkin_sessions st' sid = Some s'"
    from qs [OF this] obtain s where s: "checkin_sessions st sid = Some s"
      "s_sessionId s' = s_sessionId s" "s_userId s' = s_userId s" by blast
    from inv s(1) have "s_sessionId s = sid \<and> (\<exists>t. sid = generateSessionId toISO (s_userId s) t)"
      unfolding sessions_inv_def by blast
    with s show "s_sessionId s' = sid \<and> (\<exists>t. sid = generateSessionId toISO (s_userId s') t)"
      by simp
  qed
  have c2: "\<forall>u us sid. user_status_col st' u = Some us \<and> us_currentSessionId us = Some sid \<longrightarrow>
          (\<exists>t. sid = generateSessionId toISO u t)"
  proof (intro allI impI)
    fix u us' sid assume a: "user_status_col st' u = Some us' \<and> us_currentSessionId us' = Some sid"
    then obtain us where "user_status_col st u = Some us"
      "us_currentSessionId us' = us_currentSessionId us" using qu by blast
    with a inv show "\<exists>t. sid = generateSessionId toISO u t"
      unfolding sessions_inv_def by (metis)
  qed
  have c3: "\<forall>sid s. checkin_sessions st' sid = Some s \<and> s_status s = Active \<longrightarrow>
          (\<exists>us. user_status_col st' (s_userId s) = Some us
             \<and> (us_status us = Some CheckedIn \<or> us_status us = Some OnBreak)
             \<and> us_currentSessionId us = Some sid)"
  proof (intro allI impI)
    fix sid s' assume a: "checkin_sessions st' sid = Some s' \<and> s_status s' = Active"
    then obtain s where s: "checkin_sessions st sid = Some s"
      "s_userId s' = s_userId s" "s_status s' = s_status s" using qs by blast
    with a have "checkin_sessions st sid = Some s \<and> s_status s = Active" by simp
    with inv obtain us where us: "user_status_col st (s_userId s) = Some us"
      "us_status us = Some CheckedIn \<or> us_status us = Some OnBreak"
      "us_currentSessionId us = Some sid"
      unfolding sessions_inv_def by blast
    from qv [OF us(1)] obtain us' where "user_status_col st' (s_userId s) = Some us'"
      "us_currentSessionId us' = us_currentSessionId us"
      "us_status us' = us_status us \<or> us_status us' = Some CheckedIn
             \<or> us_status us' = Some OnBreak" by blast
    with us s(2) show "\<exists>us. user_status_col st' (s_userId s') = Some us
             \<and> (us_status us = Some CheckedIn \<or> us_status us = Some OnBreak)
             \<and> us_currentSessionId us = Some sid"
      by auto
  qed
  show ?thesis unfolding sessions_inv_def by (intro conjI) (rule c1, rule c2, rule c3)
qed

lemma startBreak_quiet: "quiet_step st (snd (startBreak idNow now sid uid bt nts st))"
  unfolding quiet_step_def
  by (auto simp add: startBreak_def Let_def update_session_def getUserStatus_def
      updateUserStatus_def split: option.splits)

lemma addStatusUpdate_quiet: "quiet_step st (snd (addStatusUpdate idNow now sid uid un ws st))"
  unfolding quiet_step_def
  by (auto simp add: addStatusUpdate_def Let_def update_session_def getUserStatus_def
      updateUserStatus_def split: option.splits)


lemma endBreak_quiet: "quiet_step st (snd (endBreak t sid bid uid nts st))"
  unfolding quiet_step_def
  by (auto simp add: endBreak_def Let_def update_session_def getUserStatus_def
      updateUserStatus_def split: option.splits)

lemma quiet_step_refl: "quiet_step st st"
  by (auto simp add: quiet_step_def split: option.splits)

lemma quiet_step_session:
  assumes "quiet_step st st'" and "checkin_sessions st sid = Some s"
  shows "\<exists>s'. checkin_sessions st' sid = Some s' \<and> s_sessionId s' = s_sessionId s
     \<and> s_userId s' = s_userId s \<and> s_status s' = s_status s"
proof -
  from assms(1) have "case checkin_sessions st' sid of
                None \<Rightarrow> checkin_sessions st sid = None
              | Some s' \<Rightarrow>
                  (case checkin_sessions st sid of
                     None \<Rightarrow> False
                   | Some s \<Rightarrow> s_sessionId s' = s_sessionId s \<and> s_userId s' = s_userId s
                       \<and> s_status s' = s_status s)"
    unfolding quiet_step_def by blast
  with assms(2) show ?thesis by (cases "checkin_sessions st' sid") auto
qed

lemma quiet_step_user:
  assumes "quiet_step st st'" and "user_status_col st u = Some us"
  shows "\<exists>us'. user_status_col st' u = Some us'
     \<and> us_currentSessionId us' = us_currentSessionId us"
proof -
  from assms(1) have "case user_status_col st' u of
              None \<Rightarrow> user_status_col st u = None
            | Some us' \<Rightarrow>
                (case user_status_col st u of
                   None \<Rightarrow> False
                 | Some us \<Rightarrow> us_currentSessionId us' = us_currentSessionId us
                     \<and> (us_status us' = us_status us \<or> us_status us' = Some CheckedIn
                          \<or> us_status us' = Some OnBreak))"
    unfolding quiet_step_def by blast
  with assms(2) show ?thesis by (cases "user_status_col st' u") auto
qed

lemma createCheckinSession_inv:
  assumes inv: "sessions_inv toISO st"
    and gate: "\<And>us. user_status_col st u = Some us \<Longrightarrow>
        us_status us \<noteq> Some CheckedIn \<and> us_status us \<noteq> Some OnBreak"
  shows "sessions_inv toISO (snd (createCheckinSession toISO idNow now u un nts st))"
proof -
  let ?st' = "snd (createCheckinSession toISO idNow now u un nts st)"
  let ?sid = "generateSessionId toISO u idNow"
  obtain new where f1: "checkin_sessions ?st' = (checkin_sessions st)(?sid \<mapsto> new)"
    and n: "s_sessionId new = ?sid" "s_userId new = u" "s_status new = Active"
    by (simp add: createCheckinSession_def Let_def)
  obtain m where f2: "user_status_col ?st' = (user_status_col st)(u \<mapsto> m)"
    and m: "us_status m = Some CheckedIn" "us_currentSessionId m = Some ?sid"
    by (simp add: createCheckinSession_def Let_def updateUserStatus_def)
  have c1: "\<forall>sid s. checkin_sessions ?st' sid = Some s \<longrightarrow>
          s_sessionId s = sid \<and> (\<exists>t. sid = generateSessionId toISO (s_userId s) t)"
  proof (intro allI impI)
    fix sid s assume a: "checkin_sessions ?st' sid = Some s"
    show "s_sessionId s = sid \<and> (\<exists>t. sid = generateSessionId toISO (s_userId s) t)"
    proof (cases "sid = ?sid")
      case True
      with a f1 n show ?thesis by auto
    next
      case False
      with a f1 have "checkin_sessions st sid = Some s" by simp
      with inv show ?thesis unfolding sessions_inv_def by blast
    qed
  qed
  have c2: "\<forall>v vs sid. user_status_col ?st' v = Some vs \<and> us_currentSessionId vs = Some sid \<longrightarrow>
          (\<exists>t. sid = generateSessionId toISO v t)"
  proof (intro allI impI)
    fix v vs sid assume a: "user_status_col ?st' v = Some vs \<and> us_currentSessionId vs = Some sid"
    show "\<exists>t. sid = generateSessionId toISO v t"
    proof (cases "v = u")
      case True
      with a f2 m show ?thesis by auto
    next
      case False
      with a f2 have "user_status_col st v = Some vs \<and> us_currentSessionId vs = Some sid" by simp
      with inv show ?thesis unfolding sessions_inv_def by blast
    qed
  qed
  have c3: "\<forall>sid s. checkin_sessions ?st' sid = Some s \<and> s_status s = Active \<longrightarrow>
          (\<exists>vs. user_status_col ?st' (s_userId s) = Some vs
             \<and> (us_status vs = Some CheckedIn \<or> us_status vs = Some OnBreak)
             \<and> us_currentSessionId vs = Some sid)"
  proof (intro allI impI)
    fix sid s assume a: "checkin_sessions ?st' sid = Some s \<and> s_status s = Active"
    show "\<exists>vs. user_status_col ?st' (s_userId s) = Some vs
             \<and> (us_status vs = Some CheckedIn \<or> us_status vs = Some OnBreak)
             \<and> us_currentSessionId vs = Some sid"
    proof (cases "sid = ?sid")
      case True
      with a f1 n have "s_userId s = u" by auto
      with True f2 m show ?thesis by simp
    next
      case False
      with a f1 have b: "checkin_sessions st sid = Some s \<and> s_status s = Active" by simp
      with inv obtain vs where vs: "user_status_col st (s_userId s) = Some vs"
        "us_status vs = Some CheckedIn \<or> us_status vs = Some OnBreak"
        "us_currentSessionId vs = Some sid"
        unfolding sessions_inv_def by blast
      with gate have "s_userId s \<noteq> u" by blast
      with vs f2 show ?thesis by simp
    qed
  qed
  show ?thesis unfolding sessions_inv_def by (intro conjI) (rule c1, rule c2, rule c3)
qed

lemma completeCheckinSession_inv:
  assumes inv: "sessions_inv toISO st" and s: "checkin_sessions st sid = Some s"
    and us: "user_status_col st (s_userId s) = Some us"
    and ptr: "us_currentSessionId us = Some sid"
  shows "sessions_inv toISO (snd (completeCheckinSession t sid nts st))"
proof -
  let ?st' = "snd (completeCheckinSession t sid nts st)"
  obtain s' where f1: "checkin_sessions ?st' = (checkin_sessions st)(sid \<mapsto> s')"
    and n: "s_sessionId s' = s_sessionId s" "s_userId s' = s_userId s" "s_status s' = Completed"
    using s by (simp add: completeCheckinSession_def getCheckinSession_def Let_def)
  obtain m where f2: "user_status_col ?st' = (user_status_col st)(s_userId s \<mapsto> m)"
    and m: "us_currentSessionId m = us_currentSessionId us"
    using s us
    by (simp add: completeCheckinSession_def getCheckinSession_def Let_def updateUserStatus_def)
  have c1: "\<forall>x sx. checkin_sessions ?st' x = Some sx \<longrightarrow>
          s_sessionId sx = x \<and> (\<exists>t. x = generateSessionId toISO (s_userId sx) t)"
  proof (intro allI impI)
    fix x sx assume a: "checkin_sessions ?st' x = Some sx"
    show "s_sessionId sx = x \<and> (\<exists>t. x = generateSessionId toISO (s_userId sx) t)"
    proof (cases "x = sid")
      case True
      with a f1 have "sx = s'" by simp
      moreover from inv s have "s_sessionId s = sid
          \<and> (\<exists>t. sid = generateSessionId toISO (s_userId s) t)"
        unfolding sessions_inv_def by blast
      ultimately show ?thesis using True n by simp
    next
      case False
      with a f1 have "checkin_sessions st x = Some sx" by simp
      with inv show ?thesis unfolding sessions_inv_def by blast
    qed
  qed
  have c2: "\<forall>v vs x. user_status_col ?st' v = Some vs \<and> us_currentSessionId vs = Some x \<longrightarrow>
          (\<exists>t. x = generateSessionId toISO v t)"
  proof (intro allI impI)
    fix v vs x assume a: "user_status_col ?st' v = Some vs \<and> us_currentSessionId vs = Some x"
    show "\<exists>t. x = generateSessionId toISO v t"
    proof (cases "v = s_userId s")
      case True
      with a f2 m have "us_currentSessionId us = Some x" by simp
      with inv us True show ?thesis unfolding sessions_inv_def by blast
    next
      case False
      with a f2 have "user_status_col st v = Some vs \<and> us_currentSessionId vs = Some x" by simp
      with inv show ?thesis unfolding sessions_inv_def by blast
    qed
  qed
  have c3: "\<forall>x sx. checkin_sessions ?st' x = Some sx \<and> s_status sx = Active \<longrightarrow>
          (\<exists>vs. user_status_col ?st' (s_userId sx) = Some vs
             \<and> (us_status vs = Some CheckedIn \<or> us_status vs = Some OnBreak)
             \<and> us_currentSessionId vs = Some x)"
  proof (intro allI impI)
    fix x sx assume a: "checkin_sessions ?st' x = Some sx \<and> s_status sx = Active"
    have ne: "x \<noteq> sid"
    proof
      assume "x = sid"
      with a f1 have "sx = s'" by simp
      with a n show False by simp
    qed
    with a f1 have b: "checkin_sessions st x = Some sx \<and> s_status sx = Active" by simp
    with inv obtain vs where vs: "user_status_col st (s_userId sx) = Some vs"
      "us_status vs = Some CheckedIn \<or> us_status vs = Some OnBreak"
      "us_currentSessionId vs = Some x"
      unfolding sessions_inv_def by blast
    have "s_userId sx \<noteq> s_userId s"
    proof
      assume "s_userId sx = s_userId s"
      with vs us have "vs = us" by simp
      with vs(3) ptr ne show False by simp
    qed
    with vs f2 show "\<exists>vs. user_status_col ?st' (s_userId sx) = Some vs
             \<and> (us_status vs = Some CheckedIn \<or> us_status vs = Some OnBreak)
             \<and> us_currentSessionId vs = Some x"
      by simp
  qed
  show ?thesis unfolding sessions_inv_def by (intro conjI) (rule c1, rule c2, rule c3)
qed

lemma getUserCurrentState_sessionD:
  assumes "getUserCurrentState u st = Some ucs" and "ucs_currentSession ucs = Some cs"
  shows "\<exists>sid. user_status_col st u = Some (ucs_status ucs)
     \<and> us_currentSessionId (ucs_status ucs) = Some sid \<and> checkin_sessions st sid = Some cs"
  using assms
  by (auto simp add: getUserCurrentState_def Let_def getUserStatus_def getCheckinSession_def
      split: option.splits if_splits)

lemma handleCheckin_inv:
  assumes "sessions_inv toISO st"
  shows "sessions_inv toISO (snd (handleCheckin toISO idNow now u un nts st))"
proof (cases "\<exists>us. user_status_col st u = Some us
    \<and> (us_status us = Some CheckedIn \<or> us_status us = Some OnBreak)")
  case True
  with assms show ?thesis by (auto simp add: handleCheckin_def getUserStatus_def)
next
  case False
  then have gate: "\<And>us. user_status_col st u = Some us \<Longrightarrow>
        us_status us \<noteq> Some CheckedIn \<and> us_status us \<noteq> Some OnBreak" by blast
  have "snd (handleCheckin toISO idNow now u un nts st)
      = snd (createCheckinSession toISO idNow now u un (Some nts) st)"
    using False
    by (auto simp add: handleCheckin_def getUserStatus_def split: option.splits prod.splits)
  with createCheckinSession_inv [OF assms gate] show ?thesis by simp
qed

lemma handleBreakStart_inv:
  assumes "sessions_inv toISO st"
  shows "sessions_inv toISO (snd (handleBreakStart idNow now u bt nts st))"
proof -
  have "snd (handleBreakStart idNow now u bt nts st) = st
      \<or> (\<exists>sid b. snd (handleBreakStart idNow now u bt nts st)
            = snd (startBreak idNow now sid u b (Some nts) st))"
    by (auto simp add: handleBreakStart_def split: option.splits prod.splits sum.splits)
      (metis snd_conv)+
  with assms quiet_step_inv [OF assms startBreak_quiet] show ?thesis by auto
qed

lemma handleBreakEnd_inv:
  assumes "sessions_inv toISO st"
  shows "sessions_inv toISO (snd (handleBreakEnd now u nts st))"
proof -
  have "snd (handleBreakEnd now u nts st) = st
      \<or> (\<exists>sid bid. snd (handleBreakEnd now u nts st)
            = snd (endBreak now sid bid u (Some nts) st))"
    by (auto simp add: handleBreakEnd_def split: option.splits prod.splits sum.splits)
      (metis snd_conv)+
  with assms quiet_step_inv [OF assms endBreak_quiet] show ?thesis by auto
qed

lemma handleStatusUpdate_sessions_inv:
  assumes "sessions_inv toISO st"
  shows "sessions_inv toISO (snd (handleStatusUpdate idNow now u un ws st))"
proof -
  have "snd (handleStatusUpdate idNow now u un ws st) = st
      \<or> (\<exists>sid. snd (handleStatusUpdate idNow now u un ws st)
            = snd (addStatusUpdate idNow now sid u un ws st))"
    by (auto simp add: handleStatusUpdate_def split: option.splits prod.splits sum.splits)
      (metis snd_conv)+
  with assms quiet_step_inv [OF assms addStatusUpdate_quiet] show ?thesis by auto
qed

lemma checkout_tail:
  "snd (case completeCheckinSession c sid n st1 of
          (Inl e, st2) \<Rightarrow> (Failed, st2)
        | (Inr _, st2) \<Rightarrow>
            (case getCheckinSession sid2 st2 of
               None \<Rightarrow> (Failed, st2)
             | Some completedSession \<Rightarrow>
                 (case s_checkoutTime completedSession of
                    None \<Rightarrow> (Failed, st2)
                  | Some _ \<Rightarrow> (CheckoutOk completedSession, st2))))
   = snd (completeCheckinSession c sid n st1)"
  by (auto split: prod.splits sum.splits option.splits)

lemma handleCheckout_shape:
  "snd (handleCheckout endNow checkoutNow u nts st) = st
   \<or> (\<exists>ucs cs st1. getUserCurrentState u st = Some ucs \<and> ucs_currentSession ucs = Some cs
        \<and> (st1 = st \<or> (\<exists>bid. st1 = snd (endBreak endNow (s_sessionId cs) bid u
                (Some ''Auto-ended due to checkout'') st)))
        \<and> (snd (handleCheckout endNow checkoutNow u nts st) = st1
            \<or> snd (handleCheckout endNow checkoutNow u nts st)
                = snd (completeCheckinSession checkoutNow (s_sessionId cs) (Some nts) st1)))"
proof (cases "getUserCurrentState u st")
  case None
  then show ?thesis by (simp add: handleCheckout_def)
next
  case (Some ucs)
  show ?thesis
  proof (cases "ucs_currentSession ucs")
    case None
    with Some show ?thesis by (simp add: handleCheckout_def)
  next
    case cs: (Some cs)
    show ?thesis
    proof (cases "us_status (ucs_status ucs) = Some CheckedOut")
      case True
      with Some cs show ?thesis by (simp add: handleCheckout_def)
    next
      case False
      have direct: "snd (handleCheckout endNow checkoutNow u nts st)
          = snd (completeCheckinSession checkoutNow (s_sessionId cs) (Some nts) st)"
        if "us_status (ucs_status ucs) \<noteq> Some OnBreak \<or> ucs_activeBreak ucs = None"
        using that Some cs False by (auto simp add: handleCheckout_def checkout_tail)
      show ?thesis
      proof (cases "us_status (ucs_status ucs) \<noteq> Some OnBreak \<or> ucs_activeBreak ucs = None")
        case True
        from direct [OF True] Some cs show ?thesis by blast
      next
        case nb: False
        then obtain ab where ab: "us_status (ucs_status ucs) = Some OnBreak"
          "ucs_activeBreak ucs = Some ab" by auto
        obtain r st1 where e: "endBreak endNow (s_sessionId cs) (b_breakId ab) u
            (Some ''Auto-ended due to checkout'') st = (r, st1)" by (metis surj_pair)
        then have s1: "st1 = snd (endBreak endNow (s_sessionId cs) (b_breakId ab) u
            (Some ''Auto-ended due to checkout'') st)" by simp
        have "snd (handleCheckout endNow checkoutNow u nts st) = st1
            \<or> snd (handleCheckout endNow checkoutNow u nts st)
                = snd (completeCheckinSession checkoutNow (s_sessionId cs) (Some nts) st1)"
        proof (cases r)
          case (Inl x)
          with Some cs False ab e show ?thesis by (simp add: handleCheckout_def)
        next
          case (Inr x)
          with Some cs False ab e show ?thesis by (simp add: handleCheckout_def checkout_tail)
        qed
        with Some cs s1 show ?thesis by blast
      qed
    qed
  qed
qed

lemma handleCheckout_inv:
  assumes inv: "sessions_inv toISO st"
  shows "sessions_inv toISO (snd (handleCheckout endNow checkoutNow u nts st))"
proof -
  from handleCheckout_shape [of endNow checkoutNow u nts st]
  show ?thesis
  proof
    assume "snd (handleCheckout endNow checkoutNow u nts st) = st"
    with inv show ?thesis by simp
  next
    assume "\<exists>ucs cs st1. getUserCurrentState u st = Some ucs \<and> ucs_currentSession ucs = Some cs
        \<and> (st1 = st \<or> (\<exists>bid. st1 = snd (endBreak endNow (s_sessionId cs) bid u
                (Some ''Auto-ended due to checkout'') st)))
        \<and> (snd (handleCheckout endNow checkoutNow u nts st) = st1
            \<or> snd (handleCheckout endNow checkoutNow u nts st)
                = snd (completeCheckinSession checkoutNow (s_sessionId cs) (Some nts) st1))"
    then obtain ucs cs st1 where g: "getUserCurrentState u st = Some ucs"
      and c: "ucs_currentSession ucs = Some cs"
      and s1: "st1 = st \<or> (\<exists>bid. st1 = snd (endBreak endNow (s_sessionId cs) bid u
                (Some ''Auto-ended due to checkout'') st))"
      and r: "snd (handleCheckout endNow checkoutNow u nts st) = st1
            \<or> snd (handleCheckout endNow checkoutNow u nts st)
                = snd (completeCheckinSession checkoutNow (s_sessionId cs) (Some nts) st1)"
      by blast
    from getUserCurrentState_sessionD [OF g c] obtain sid0 where
      u0: "user_status_col st u = Some (ucs_status ucs)"
      and p0: "us_currentSessionId (ucs_status ucs) = Some sid0"
      and c0: "checkin_sessions st sid0 = Some cs" by blast
    from inv c0 have id0: "s_sessionId cs = sid0"
      and "\<exists>t. sid0 = generateSessionId toISO (s_userId cs) t"
      unfolding sessions_inv_def by blast+
    moreover from inv u0 p0 have "\<exists>t. sid0 = generateSessionId toISO u t"
      unfolding sessions_inv_def by blast
    ultimately have owner: "s_userId cs = u" using generateSessionId_inj by metis
    from s1 have q: "quiet_step st st1" using quiet_step_refl endBreak_quiet by auto
    have inv1: "sessions_inv toISO st1" using quiet_step_inv [OF inv q] .
    from r show ?thesis
    proof
      assume "snd (handleCheckout endNow checkoutNow u nts st) = st1"
      with inv1 show ?thesis by simp
    next
      assume e: "snd (handleCheckout endNow checkoutNow u nts st)
                = snd (completeCheckinSession checkoutNow (s_sessionId cs) (Some nts) st1)"
      from quiet_step_session [OF q c0] obtain s' where s': "checkin_sessions st1 sid0 = Some s'"
        "s_userId s' = s_userId cs" by blast
      from quiet_step_user [OF q u0] obtain us' where us': "user_status_col st1 u = Some us'"
        "us_currentSessionId us' = us_currentSessionId (ucs_status ucs)" by blast
      have "sessions_inv toISO (snd (completeCheckinSession checkoutNow sid0 (Some nts) st1))"
        using s' us' owner p0 by (intro completeCheckinSession_inv [OF inv1, of sid0 s' us']) simp_all
      with e id0 show ?thesis by simp
    qed
  qed
qed

lemma exec_sessions_inv:
  "sessions_inv toISO st \<Longrightarrow> sessions_inv toISO (snd (exec toISO c st))"
  by (cases c)
    (simp_all add: handleCheckin_inv handleCheckout_inv handleBreakStart_inv handleBreakEnd_inv
      handleStatusUpdate_sessions_inv)

lemma run_sessions_inv:
  "sessions_inv toISO st \<Longrightarrow> sessions_inv toISO (run toISO cmds st)"
  by (induction cmds arbitrary: st) (simp_all add: exec_sessions_inv)

lemma sessions_inv_empty: "sessions_inv toISO empty_db"
  by (simp add: sessions_inv_def empty_db_def)

lemma sessions_inv_one_active:
  assumes "sessions_inv toISO st"
    and "checkin_sessions st sid1 = Some s1" and "checkin_sessions st sid2 = Some s2"
    and "s_status s1 = Active" and "s_status s2 = Active" and "s_userId s1 = s_userId s2"
  shows "sid1 = sid2"
proof -
  from assms(1,2,4) obtain us1 where "user_status_col st (s_userId s1) = Some us1"
    "us_currentSessionId us1 = Some sid1" unfolding sessions_inv_def by blast
  moreover from assms(1,3,5) obtain us2 where "user_status_col st (s_userId s2) = Some us2"
    "us_currentSessionId us2 = Some sid2" unfolding sessions_inv_def by blast
  ultimately show ?thesis using assms(6) by simp
qed

text \<open>
  Claim C2. A check-in by a user whose status is \<open>checked-in\<close> or \<open>on-break\<close> is
  answered with the already-active rejection and leaves the store as it was: no session
  is created and nothing is written. Consequently, after any sequence of commands run
  one after the other from the empty store, no user has two sessions with status
  \<open>active\<close>.
\<close>

theorem checkin_rejected_when_active:
  "(\<forall>us. getUserStatus u st = Some us
        \<and> (us_status us = Some CheckedIn \<or> us_status us = Some OnBreak)
      \<longrightarrow> handleCheckin toISO idNow now u un nts st = (AlreadyActive, st))
   \<and> (\<forall>sid1 sid2 s1 s2.
        checkin_sessions (run toISO cmds empty_db) sid1 = Some s1
        \<and> checkin_sessions (run toISO cmds empty_db) sid2 = Some s2
        \<and> s_status s1 = Active \<and> s_status s2 = Active \<and> s_userId s1 = s_userId s2
      \<longrightarrow> sid1 = sid2)"
proof (intro conjI allI impI)
  fix us
  assume "getUserStatus u st = Some us
        \<and> (us_status us = Some CheckedIn \<or> us_status us = Some OnBreak)"
  then show "handleCheckin toISO idNow now u un nts st = (AlreadyActive, st)"
    by (auto simp add: handleCheckin_def)
next
  fix sid1 sid2 s1 s2
  assume "checkin_sessions (run toISO cmds empty_db) sid1 = Some s1
        \<and> checkin_sessions (run toISO cmds empty_db) sid2 = Some s2
        \<and> s_status s1 = Active \<and> s_status s2 = Active \<and> s_userId s1 = s_userId s2"
  then show "sid1 = sid2"
    using sessions_inv_one_active [OF run_sessions_inv [OF sessions_inv_empty, of toISO cmds]]
    by blast
qed

theorem checkin_rejected_when_active_witness:
  "getUserStatus ''U1'' demo_checkedin_db = Some demo_user_checked_in
   \<and> us_status demo_user_checked_in = Some CheckedIn
   \<and> handleCheckin demo_toISO 2000 2000 ''U1'' ''ann'' [] demo_checkedin_db
       = (AlreadyActive, demo_checkedin_db)
   \<and> (\<exists>s. checkin_sessions (run demo_toISO demo_double_checkin empty_db)
               ''U1_20250101_1000'' = Some s
          \<and> s_status s = Active \<and> s_userId s = ''U1'')
   \<and> checkin_sessions (run demo_toISO demo_double_checkin empty_db) ''U1_20250101_2000''
       = None"
proof -
  have h: "getUserStatus ''U1'' demo_checkedin_db = Some demo_user_checked_in
      \<and> (us_status demo_user_checked_in = Some CheckedIn
           \<or> us_status demo_user_checked_in = Some OnBreak)"
    by (simp add: getUserStatus_def demo_checkedin_db_def demo_user_checked_in_def)
  have a: "handleCheckin demo_toISO 2000 2000 ''U1'' ''ann'' [] demo_checkedin_db
       = (AlreadyActive, demo_checkedin_db)"
    using checkin_rejected_when_active
      [of "''U1''" demo_checkedin_db demo_toISO 2000 2000 "''ann''" "[]" "[]"] h
    by blast
  have b: "us_status demo_user_checked_in = Some CheckedIn"
    by (simp add: demo_user_checked_in_def)
  have c: "\<exists>s. checkin_sessions (run demo_toISO demo_double_checkin empty_db)
               ''U1_20250101_1000'' = Some s
          \<and> s_status s = Active \<and> s_userId s = ''U1''"
    by (simp add: demo_double_checkin_def id_defs store_defs handler_defs)
  have d: "checkin_sessions (run demo_toISO demo_double_checkin empty_db) ''U1_20250101_2000''
       = None"
    by (simp add: demo_double_checkin_def id_defs store_defs handler_defs)
  from h a b c d show ?thesis by simp
qed

subsection \<open>Checkout during a break\<close>

lemma find_unique:
  assumes "x \<in> set xs" and "P x" and "\<And>y. y \<in> set xs \<Longrightarrow> P y \<Longrightarrow> y = x"
  shows "find P xs = Some x"
  using assms
proof (induction xs)
  case Nil
  then show ?case by simp
next
  case (Cons a xs)
  show ?case
  proof (cases "P a")
    case True
    have "a = x" using Cons.prems(3) [of a] True by simp
    with True show ?thesis by simp
  next
    case False
    with Cons.prems(1,2) have m: "x \<in> set xs" by auto
    have "find P xs = Some x"
    proof (rule Cons.IH [OF m Cons.prems(2)])
      fix y assume "y \<in> set xs" and "P y"
      then show "y = x" using Cons.prems(3) [of y] by simp
    qed
    with False show ?thesis by simp
  qed
qed

lemma set_update_cases:
  assumes "distinct (map fst al)" and "(k', x) \<in> set (AList.update k v al)"
  shows "(k' = k \<and> x = v) \<or> (k' \<noteq> k \<and> (k', x) \<in> set al)"
  using assms
proof (induction al)
  case Nil
  then show ?case by simp
next
  case (Cons a al)
  obtain ka va where a: "a = (ka, va)" by (cases a)
  show ?case
  proof (cases "ka = k")
    case True
    with Cons.prems a have "(k', x) = (k, v) \<or> (k', x) \<in> set al" by simp
    moreover have "k \<notin> fst ` set al" using Cons.prems(1) a True by simp
    ultimately show ?thesis by force
  next
    case False
    with Cons.prems a have "(k', x) = (ka, va) \<or> (k', x) \<in> set (AList.update k v al)" by simp
    then show ?thesis
    proof
      assume "(k', x) = (ka, va)"
      with False a show ?thesis by simp
    next
      assume "(k', x) \<in> set (AList.update k v al)"
      with Cons.IH Cons.prems(1) show ?thesis by auto
    qed
  qed
qed

lemma endBreak_effect:
  assumes b: "map_of (breaks st sid) bid = Some b" and s: "checkin_sessions st sid = Some s"
    and n: "n \<noteq> []"
  shows "\<exists>r st'. endBreak t sid bid uid (Some n) st = (Inr r, st')
     \<and> breaks st' = (breaks st)(sid := AList.update bid
          (b\<lparr>b_endTime := Some t,
             b_duration := Some (js_round (of_int (t - b_startTime b) / 60000)),
             b_status := Completed,
             b_notes := Some ((case b_notes b of None \<Rightarrow> []
                               | Some old \<Rightarrow> if old = [] then [] else old @ '' | '')
                              @ ''End: '' @ n)\<rparr>) (breaks st sid))
     \<and> checkin_sessions st' = (checkin_sessions st)(sid \<mapsto> s\<lparr>s_totalBreakTime :=
           s_totalBreakTime s + js_round (of_int (t - b_startTime b) / 60000)\<rparr>)"
  using assms
  by (auto simp add: endBreak_def update_session_def Let_def getUserStatus_def
      split: option.splits)

lemma active_break_found:
  assumes us: "user_status_col st u = Some ust"
    and ptr: "us_currentSessionId ust = Some sid" and ne: "sid \<noteq> []"
    and sess: "checkin_sessions st sid = Some s"
    and proj: "us_currentSession ust = Some cs" and cur: "cs_currentBreak cs = Some cb"
    and brk: "map_of (breaks st sid) (cb_id cb) = Some b"
    and keys: "\<forall>(k, x) \<in> set (breaks st sid). b_breakId x = k"
    and dist: "distinct (map fst (breaks st sid))"
  shows "\<exists>ucs. getUserCurrentState u st = Some ucs \<and> ucs_status ucs = ust
     \<and> ucs_currentSession ucs = Some s \<and> ucs_activeBreak ucs = Some b"
proof -
  have mem: "(cb_id cb, b) \<in> set (breaks st sid)" using brk by (rule map_of_SomeD)
  have f: "find (\<lambda>x. b_breakId x = cb_id cb) (getSessionBreaks sid st) = Some b"
  proof (rule find_unique)
    have "snd (cb_id cb, b) \<in> snd ` set (breaks st sid)" using mem by (rule imageI)
    then show "b \<in> set (getSessionBreaks sid st)" by (simp add: getSessionBreaks_def)
    show "b_breakId b = cb_id cb" using keys mem by auto
  next
    fix y assume "y \<in> set (getSessionBreaks sid st)" and p: "b_breakId y = cb_id cb"
    then obtain k where k: "(k, y) \<in> set (breaks st sid)"
      by (auto simp add: getSessionBreaks_def)
    with keys p have "k = cb_id cb" by auto
    with k dist have "map_of (breaks st sid) (cb_id cb) = Some y" by simp
    with brk show "y = b" by simp
  qed
  show ?thesis
    using us ptr ne sess proj cur f
    by (simp add: getUserCurrentState_def getUserStatus_def getCheckinSession_def Let_def
        truthy_def)
qed

lemma completeCheckinSession_effect:
  assumes "checkin_sessions st sid = Some s"
  shows "\<exists>s'. checkin_sessions (snd (completeCheckinSession t sid nts st)) sid = Some s'
      \<and> s_status s' = Completed \<and> s_checkoutTime s' = Some t
      \<and> s_totalBreakTime s' = s_totalBreakTime s
      \<and> s_totalWorkTime s' = Some (js_round (of_int (t - s_checkinTime s) / 60000)
            - s_totalBreakTime s)"
    and "breaks (snd (completeCheckinSession t sid nts st)) = breaks st"
  using assms
  by (simp_all add: completeCheckinSession_def getCheckinSession_def Let_def js_round_diff_int)

text \<open>
  Claim C3. A checkout by a user who is on a break, whose status record names the
  break in progress, first ends that break with the end note
  \<open>Auto-ended due to checkout\<close> and then completes the session: the session's
  \<open>totalBreakTime\<close> includes the duration of the auto-ended break, its
  \<open>totalWorkTime\<close> is computed from that total, the break is stored completed with
  its duration and the note, and no break of the session is left active.
\<close>

theorem checkout_ends_active_break:
  assumes us: "user_status_col st u = Some ust" and ob: "us_status ust = Some OnBreak"
    and ptr: "us_currentSessionId ust = Some sid" and ne: "sid \<noteq> []"
    and sess: "checkin_sessions st sid = Some s" and sid: "s_sessionId s = sid"
    and proj: "us_currentSession ust = Some cs" and cur: "cs_currentBreak cs = Some cb"
    and brk: "map_of (breaks st sid) (cb_id cb) = Some b"
    and keys: "\<forall>(k, x) \<in> set (breaks st sid). b_breakId x = k"
    and dist: "distinct (map fst (breaks st sid))"
    and others: "\<forall>(k, x) \<in> set (breaks st sid). k \<noteq> cb_id cb \<longrightarrow> b_status x = Completed"
  shows "\<exists>s' b'.
       checkin_sessions (snd (handleCheckout endNow checkoutNow u nts st)) sid = Some s'
     \<and> s_status s' = Completed
     \<and> s_totalBreakTime s'
         = s_totalBreakTime s + js_round (of_int (endNow - b_startTime b) / 60000)
     \<and> s_totalWorkTime s'
         = Some (js_round (of_int (checkoutNow - s_checkinTime s) / 60000)
             - (s_totalBreakTime s + js_round (of_int (endNow - b_startTime b) / 60000)))
     \<and> map_of (breaks (snd (handleCheckout endNow checkoutNow u nts st)) sid) (cb_id cb)
         = Some b'
     \<and> b_status b' = Completed \<and> b_endTime b' = Some endNow
     \<and> b_duration b' = Some (js_round (of_int (endNow - b_startTime b) / 60000))
     \<and> (\<exists>pre. b_notes b' = Some (pre @ ''End: Auto-ended due to checkout''))
     \<and> (\<forall>(k, x) \<in> set (breaks (snd (handleCheckout endNow checkoutNow u nts st)) sid).
            b_status x = Completed)"
proof -
  let ?d = "js_round (of_int (endNow - b_startTime b) / 60000)"
  let ?b' = "b\<lparr>b_endTime := Some endNow, b_duration := Some ?d, b_status := Completed,
             b_notes := Some ((case b_notes b of None \<Rightarrow> []
                               | Some old \<Rightarrow> if old = [] then [] else old @ '' | '')
                              @ ''End: '' @ ''Auto-ended due to checkout'')\<rparr>"
  from active_break_found [OF us ptr ne sess proj cur brk keys dist]
  obtain ucs where g: "getUserCurrentState u st = Some ucs" "ucs_status ucs = ust"
    "ucs_currentSession ucs = Some s" "ucs_activeBreak ucs = Some b" by blast
  have bid: "b_breakId b = cb_id cb" using keys map_of_SomeD [OF brk] by auto
  from endBreak_effect [OF brk sess, of "''Auto-ended due to checkout''" endNow u]
  obtain r st1 where e: "endBreak endNow sid (cb_id cb) u (Some ''Auto-ended due to checkout'') st
       = (Inr r, st1)"
    and b1: "breaks st1 = (breaks st)(sid := AList.update (cb_id cb) ?b' (breaks st sid))"
    and s1: "checkin_sessions st1 = (checkin_sessions st)(sid \<mapsto> s\<lparr>s_totalBreakTime :=
           s_totalBreakTime s + ?d\<rparr>)"
    by auto
  let ?st2 = "snd (completeCheckinSession checkoutNow sid (Some nts) st1)"
  have res: "snd (handleCheckout endNow checkoutNow u nts st) = ?st2"
    using g ob sid bid e by (simp add: handleCheckout_def checkout_tail)
  have s1': "checkin_sessions st1 sid = Some (s\<lparr>s_totalBreakTime := s_totalBreakTime s + ?d\<rparr>)"
    by (simp add: s1)
  from completeCheckinSession_effect(1) [OF s1', of checkoutNow "Some nts"]
  obtain s' where s': "checkin_sessions ?st2 sid = Some s'" "s_status s' = Completed"
    "s_totalBreakTime s' = s_totalBreakTime s + ?d"
    "s_totalWorkTime s' = Some (js_round (of_int (checkoutNow - s_checkinTime s) / 60000)
            - (s_totalBreakTime s + ?d))"
    by auto
  have b2: "breaks ?st2 sid = AList.update (cb_id cb) ?b' (breaks st sid)"
    using completeCheckinSession_effect(2) [OF s1', of checkoutNow "Some nts"] b1 by simp
  have m: "map_of (breaks ?st2 sid) (cb_id cb) = Some ?b'"
    by (simp add: b2 update_conv')
  have all: "\<forall>(k, x) \<in> set (breaks ?st2 sid). b_status x = Completed"
  proof (clarify)
    fix k x assume "(k, x) \<in> set (breaks ?st2 sid)"
    then have "(k, x) \<in> set (AList.update (cb_id cb) ?b' (breaks st sid))" by (simp add: b2)
    from set_update_cases [OF dist this]
    show "b_status x = Completed" using others by auto
  qed
  have nt: "\<exists>pre. b_notes ?b' = Some (pre @ ''End: Auto-ended due to checkout'')"
    by (intro exI [of _ "case b_notes b of None \<Rightarrow> []
          | Some old \<Rightarrow> if old = [] then [] else old @ '' | ''"]) simp
  show ?thesis
    unfolding res
    by (intro exI [of _ s'] exI [of _ ?b'] conjI s' m all nt) simp_all
qed

theorem checkout_ends_active_break_witness:
  "user_status_col demo_onbreak_db ''U1'' = Some demo_user_on_break
   \<and> us_status demo_user_on_break = Some OnBreak
   \<and> map_of (breaks demo_onbreak_db ''U1_20250101_1000'') ''break_600000''
       = Some demo_active_break
   \<and> b_status demo_active_break = Active
   \<and> (\<exists>s' b'.
         checkin_sessions (snd (handleCheckout 1500000 3601000 ''U1'' [] demo_onbreak_db))
           ''U1_20250101_1000'' = Some s'
       \<and> s_status s' = Completed \<and> s_totalBreakTime s' = 20 \<and> s_totalWorkTime s' = Some 40
       \<and> map_of (breaks (snd (handleCheckout 1500000 3601000 ''U1'' [] demo_onbreak_db))
             ''U1_20250101_1000'') ''break_600000'' = Some b'
       \<and> b_status b' = Completed \<and> b_duration b' = Some 15
       \<and> (\<exists>pre. b_notes b' = Some (pre @ ''End: Auto-ended due to checkout'')))"
proof -
  let ?sid = "''U1_20250101_1000''"
  let ?cs = "\<lparr>cs_checkinTime = 1000, cs_totalBreakTime = 5,
       cs_currentBreak = Some \<lparr>cb_id = ''break_600000'', cb_type = Short,
         cb_startTime = 600000\<rparr>,
       cs_currentWorkStatus = None, cs_statusUpdateCount = 0\<rparr>"
  let ?cb = "\<lparr>cb_id = ''break_600000'', cb_type = Short, cb_startTime = 600000\<rparr>"
  have us: "user_status_col demo_onbreak_db ''U1'' = Some demo_user_on_break"
    by (simp add: demo_onbreak_db_def)
  have ob: "us_status demo_user_on_break = Some OnBreak"
    and ptr: "us_currentSessionId demo_user_on_break = Some ?sid"
    and proj: "us_currentSession demo_user_on_break = Some ?cs"
    by (simp_all add: demo_user_on_break_def)
  have ne: "?sid \<noteq> []" by simp
  have sess: "checkin_sessions demo_onbreak_db ?sid = Some (demo_session\<lparr>s_breakCount := 2\<rparr>)"
    by (simp add: demo_onbreak_db_def)
  have sid: "s_sessionId (demo_session\<lparr>s_breakCount := 2\<rparr>) = ?sid"
    by (simp add: demo_session_def)
  have cur: "cs_currentBreak ?cs = Some ?cb" by simp
  have brs: "breaks demo_onbreak_db ?sid
      = [(''break_2000'', demo_break), (''break_600000'', demo_active_break)]"
    by (simp add: demo_onbreak_db_def)
  have brk: "map_of (breaks demo_onbreak_db ?sid) (cb_id ?cb) = Some demo_active_break"
    by (simp add: brs)
  have keys: "\<forall>(k, x) \<in> set (breaks demo_onbreak_db ?sid). b_breakId x = k"
    by (simp add: brs demo_break_def demo_active_break_def)
  have dist: "distinct (map fst (breaks demo_onbreak_db ?sid))" by (simp add: brs)
  have others: "\<forall>(k, x) \<in> set (breaks demo_onbreak_db ?sid).
      k \<noteq> cb_id ?cb \<longrightarrow> b_status x = Completed"
    by (simp add: brs demo_break_def)
  have r: "js_round 15 = 15" "js_round 60 = 60" by code_simp+
  have act: "b_status demo_active_break = Active" by (simp add: demo_active_break_def)
  from checkout_ends_active_break [OF us ob ptr ne sess sid proj cur brk keys dist others,
      of 1500000 3601000 "[]"]
  have "\<exists>s' b'.
         checkin_sessions (snd (handleCheckout 1500000 3601000 ''U1'' [] demo_onbreak_db))
           ''U1_20250101_1000'' = Some s'
       \<and> s_status s' = Completed \<and> s_totalBreakTime s' = 20 \<and> s_totalWorkTime s' = Some 40
       \<and> map_of (breaks (snd (handleCheckout 1500000 3601000 ''U1'' [] demo_onbreak_db))
             ''U1_20250101_1000'') ''break_600000'' = Some b'
       \<and> b_status b' = Completed \<and> b_duration b' = Some 15
       \<and> (\<exists>pre. b_notes b' = Some (pre @ ''End: Auto-ended due to checkout''))"
    by (simp add: demo_session_def demo_active_break_def r) blast
  with us ob brk act show ?thesis by simp
qed

subsection \<open>The scheduler and one user\<close>

lemma store_reads_reminders [simp]:
  "getUserStatus v (st\<lparr>status_reminders := x\<rparr>) = getUserStatus v st"
  "getCheckinSession sid (st\<lparr>status_reminders := x\<rparr>) = getCheckinSession sid st"
  "getSessionStatusUpdates sid lm (st\<lparr>status_reminders := x\<rparr>)
     = getSessionStatusUpdates sid lm st"
  "getSessionBreaks sid (st\<lparr>status_reminders := x\<rparr>) = getSessionBreaks sid st"
  by (simp_all add: getUserStatus_def getCheckinSession_def getSessionStatusUpdates_def
      getSessionBreaks_def)

lemma getUserCurrentState_reminders [simp]:
  "getUserCurrentState v (st\<lparr>status_reminders := x\<rparr>) = getUserCurrentState v st"
  by (simp add: getUserCurrentState_def Let_def cong: option.case_cong if_cong)


lemma updateStatusReminder_shape:
  "updateStatusReminder v upd st = st
   \<or> (\<exists>r. map_of (status_reminders st) v = Some r
        \<and> updateStatusReminder v upd st
            = st\<lparr>status_reminders := AList.update v (apply_reminder_updates upd r)
                 (status_reminders st)\<rparr>)"
  by (auto simp add: updateStatusReminder_def split: option.splits)

lemma apply_reminder_updates_userId [simp]:
  "r_userId (apply_reminder_updates upd r) = r_userId r"
  by (simp add: apply_reminder_updates_def)


lemma check_reminder_shape:
  "check_reminder now deliver sentAt r st = (b, st') \<Longrightarrow>
     st' = st
     \<or> (b \<and> (\<exists>r0. map_of (status_reminders st) (r_userId r) = Some r0
          \<and> st' = st\<lparr>status_reminders := AList.update (r_userId r)
               (r0\<lparr>r_reminderCount := r_reminderCount r0 + 1,
                   r_lastReminderSent := Some (sentAt (r_userId r))\<rparr>)
               (status_reminders st)\<rparr>))"
  by (auto simp add: check_reminder_def sendStatusReminder_def updateStatusReminder_def
      getStatusReminder_def apply_reminder_updates_def no_reminder_update_def Let_def
      split: option.splits if_splits)

lemma getStatusReminder_update:
  "getStatusReminder u (st\<lparr>status_reminders := AList.update v r' (status_reminders st)\<rparr>)
     = (if u = v then Some r' else getStatusReminder u st)"
  by (simp add: getStatusReminder_def update_conv')


lemma reminders_wf_key:
  "reminders_wf st \<Longrightarrow> map_of (status_reminders st) v = Some r \<Longrightarrow> r_userId r = v"
  by (auto simp add: reminders_wf_def dest: map_of_SomeD)








lemma sends_to_Nil [simp]: "sends_to u [] = []"
  by (simp add: sends_to_def)

lemma sends_to_Cons [simp]:
  "sends_to u ((now, users) # entries) = replicate (count_list users u) now @ sends_to u entries"
  by (simp add: sends_to_def)
















subsection \<open>Checkout after short breaks\<close>

lemma floor_61_60: "\<lfloor>61 / 60 :: rat\<rfloor> = 1"
  by (simp add: floor_eq_iff)

text \<open>
  Two breaks of 31 seconds are recorded as one minute each. At the checkout 90
  seconds after the check-in the recorded break time, 2 minutes, exceeds the elapsed
  1.5 minutes, and the stored \<open>totalWorkTime\<close> is \<open>round(1.5 - 2) = 0\<close>, not a
  negative number.
\<close>

theorem checkout_zero_despite_breaks:
  "map_option (\<lambda>s. (s_checkinTime s, s_checkoutTime s, s_totalBreakTime s, s_totalWorkTime s))
     (checkin_sessions (run demo_toISO demo_short_breaks empty_db) ''U1_20250101_1000'')
   = Some (1000, Some 91000, 2, Some 0)
   \<and> (of_int (91000 - 1000) / 60000 :: rat) < of_int 2"
  by (simp add: demo_short_breaks_def id_defs store_defs handler_defs js_round_def floor_61_60)

subsection \<open>One tick of the scheduler\<close>

lemma fst_sendStatusReminder:
  "fst (sendStatusReminder deliver sentAt u st)
     = (case getUserCurrentState u st of
          None \<Rightarrow> False
        | Some us \<Rightarrow> us_status (ucs_status us) = Some CheckedIn \<and> deliver u)"
  by (simp add: sendStatusReminder_def split: option.splits)

lemma fst_check_reminder:
  "fst (check_reminder now deliver sentAt r st)
     = (case getUserCurrentState (r_userId r) st of
          None \<Rightarrow> False
        | Some us \<Rightarrow>
            us_status (ucs_status us) = Some CheckedIn
          \<and> (case lastActivityTime r us of
                None \<Rightarrow> False
              | Some T \<Rightarrow> REMINDER_INTERVAL_MS \<le> now - T)
          \<and> (case r_lastReminderSent r of
                None \<Rightarrow> True
              | Some l \<Rightarrow> REMINDER_INTERVAL_MS \<le> now - l)
          \<and> deliver (r_userId r))"
  by (auto simp add: check_reminder_def Let_def fst_sendStatusReminder split: option.splits)

lemma fst_check_reminder_frame:
  "fst (check_reminder now deliver sentAt r (st\<lparr>status_reminders := x\<rparr>))
     = fst (check_reminder now deliver sentAt r st)"
  by (simp add: fst_check_reminder)

lemma check_reminder_reminders_only:
  "\<exists>y. snd (check_reminder now deliver sentAt r st) = st\<lparr>status_reminders := y\<rparr>"
proof -
  obtain b st' where c: "check_reminder now deliver sentAt r st = (b, st')" by force
  from check_reminder_shape [OF c] show ?thesis
  proof
    assume "st' = st"
    then have "snd (check_reminder now deliver sentAt r st)
        = st\<lparr>status_reminders := status_reminders st\<rparr>" using c by simp
    then show ?thesis by blast
  next
    assume "b \<and> (\<exists>r0. map_of (status_reminders st) (r_userId r) = Some r0
          \<and> st' = st\<lparr>status_reminders := AList.update (r_userId r)
               (r0\<lparr>r_reminderCount := r_reminderCount r0 + 1,
                   r_lastReminderSent := Some (sentAt (r_userId r))\<rparr>)
               (status_reminders st)\<rparr>)"
    with c show ?thesis by auto
  qed
qed

lemma check_all_users:
  "fst (check_all now deliver sentAt rs (st\<lparr>status_reminders := x\<rparr>))
     = map r_userId (filter (\<lambda>r. fst (check_reminder now deliver sentAt r st)) rs)"
proof (induction rs arbitrary: x)
  case Nil
  then show ?case by simp
next
  case (Cons r rs)
  from check_reminder_reminders_only [of now deliver sentAt r "st\<lparr>status_reminders := x\<rparr>"]
  obtain y where y: "snd (check_reminder now deliver sentAt r (st\<lparr>status_reminders := x\<rparr>))
      = st\<lparr>status_reminders := y\<rparr>" by auto
  show ?case
    using Cons.IH [of y] y
      fst_check_reminder_frame [where now = now and deliver = deliver and sentAt = sentAt
        and r = r and st = st and x = x]
    by (simp add: split_beta)
qed

lemma check_all_frame:
  "\<exists>y. snd (check_all now deliver sentAt rs st) = st\<lparr>status_reminders := y\<rparr>"
proof (induction rs arbitrary: st)
  case Nil
  have "st = st\<lparr>status_reminders := status_reminders st\<rparr>" by simp
  then show ?case by (metis check_all.simps(1) snd_conv)
next
  case (Cons r rs)
  from check_reminder_reminders_only [of now deliver sentAt r st]
  obtain y where y: "snd (check_reminder now deliver sentAt r st) = st\<lparr>status_reminders := y\<rparr>"
    by auto
  from Cons.IH [of "st\<lparr>status_reminders := y\<rparr>"]
  obtain z where "snd (check_all now deliver sentAt rs (st\<lparr>status_reminders := y\<rparr>))
      = st\<lparr>status_reminders := y\<rparr>\<lparr>status_reminders := z\<rparr>" by auto
  with y show ?case by (auto simp add: split_beta)
qed

lemma check_all_untouched:
  "u \<notin> set (fst (check_all now deliver sentAt rs st)) \<Longrightarrow>
   getStatusReminder u (snd (check_all now deliver sentAt rs st)) = getStatusReminder u st"
proof (induction rs arbitrary: st)
  case Nil
  then show ?case by simp
next
  case (Cons r rs)
  obtain b st1 where c: "check_reminder now deliver sentAt r st = (b, st1)" by force
  from Cons.prems c have n1: "b \<longrightarrow> r_userId r \<noteq> u"
    and n2: "u \<notin> set (fst (check_all now deliver sentAt rs st1))"
    by (auto simp add: split_beta)
  from check_reminder_shape [OF c] n1
  have g: "getStatusReminder u st1 = getStatusReminder u st"
    by (auto simp add: getStatusReminder_update)
  from Cons.IH [OF n2] g c show ?case by (simp add: split_beta)
qed

lemma lastActivityTime_store:
  assumes g: "getUserCurrentState u st = Some us"
  shows "lastActivityTime r us
     = (case r_lastStatusUpdate r of
          Some t \<Rightarrow> Some t
        | None \<Rightarrow>
            (case us_currentSessionId (ucs_status us) of
               None \<Rightarrow> None
             | Some sid \<Rightarrow>
                 if sid = [] then None
                 else (case checkin_sessions st sid of
                         None \<Rightarrow> None
                       | Some s \<Rightarrow>
                           Some (if status_updates st sid = [] then s_checkinTime s
                                 else Max (u_timestamp ` snd ` set (status_updates st sid))))))"
proof (cases "r_lastStatusUpdate r")
  case (Some t)
  then show ?thesis by (simp add: lastActivityTime_def)
next
  case None
  note ust = getUserCurrentState_status [OF g]
  show ?thesis
  proof (cases "\<exists>sid s. us_currentSessionId (ucs_status us) = Some sid \<and> sid \<noteq> []
      \<and> checkin_sessions st sid = Some s")
    case True
    then obtain sid s where sid: "us_currentSessionId (ucs_status us) = Some sid" "sid \<noteq> []"
      and s: "checkin_sessions st sid = Some s" by blast
    from getUserCurrentState_session [OF ust sid s] g
    have us: "ucs_currentSession us = Some s"
      "ucs_recentStatusUpdates us = Some (getSessionStatusUpdates sid (Some 5) st)" by auto
    have "lastActivityTime r us =
       (case getSessionStatusUpdates sid (Some 5) st of
          [] \<Rightarrow> Some (s_checkinTime s) | u # _ \<Rightarrow> Some (u_timestamp u))"
      using None us by (simp add: lastActivityTime_def split: list.splits)
    also have "\<dots> = (if status_updates st sid = [] then Some (s_checkinTime s)
       else Some (Max (u_timestamp ` snd ` set (status_updates st sid))))"
      by (rule recent_updates_cases)
    finally show ?thesis using None sid s by simp
  next
    case False
    with g have "ucs_currentSession us = None" "ucs_recentStatusUpdates us = None"
      by (auto simp add: getUserCurrentState_def Let_def getUserStatus_def getCheckinSession_def
          truthy_def split: option.splits if_splits)
    with None False show ?thesis
      by (auto simp add: lastActivityTime_def split: option.splits)
  qed
qed

text \<open>
  Claim C6. One tick of the scheduler reminds exactly the users of the active
  reminder records, in the order of the query, that pass the check: a user without a
  status record or whose live status is not \<open>checked-in\<close> (on a break, checked out)
  is skipped, whatever the timestamps are; for a checked-in user the reference
  instant is the reminder's \<open>lastStatusUpdate\<close> if set, else the timestamp of the
  most recent status update of the session the user's status points to, else that
  session's \<open>checkinTime\<close>, and a user for whom none of the three exists is skipped;
  the reminder goes out when 45 minutes have passed since the reference instant, no
  reminder was sent in the last 45 minutes and the notifier delivers. The tick
  changes nothing in the store but reminder records, and the record of a user who
  was not reminded is as it was.
\<close>

theorem reminder_reference_instant:
  "fst (checkAndSendStatusReminders now deliver sentAt st)
     = map r_userId (filter
         (\<lambda>r. case user_status_col st (r_userId r) of
                 None \<Rightarrow> False
               | Some ust \<Rightarrow>
                   us_status ust = Some CheckedIn
                 \<and> (case (case r_lastStatusUpdate r of
                            Some t \<Rightarrow> Some t
                          | None \<Rightarrow>
                              (case us_currentSessionId ust of
                                 None \<Rightarrow> None
                               | Some sid \<Rightarrow>
                                   if sid = [] then None
                                   else (case checkin_sessions st sid of
                                           None \<Rightarrow> None
                                         | Some s \<Rightarrow>
                                             Some (if status_updates st sid = []
                                                   then s_checkinTime s
                                                   else Max (u_timestamp ` snd `
                                                          set (status_updates st sid)))))) of
                       None \<Rightarrow> False
                     | Some T \<Rightarrow> REMINDER_INTERVAL_MS \<le> now - T)
                 \<and> (case r_lastReminderSent r of
                       None \<Rightarrow> True
                     | Some l \<Rightarrow> REMINDER_INTERVAL_MS \<le> now - l)
                 \<and> deliver (r_userId r))
         (getActiveStatusReminders st))
   \<and> (snd (checkAndSendStatusReminders now deliver sentAt st))
        \<lparr>status_reminders := status_reminders st\<rparr> = st
   \<and> (\<forall>u. u \<notin> set (fst (checkAndSendStatusReminders now deliver sentAt st))
          \<longrightarrow> getStatusReminder u (snd (checkAndSendStatusReminders now deliver sentAt st))
              = getStatusReminder u st)"
proof (intro conjI allI impI)
  have d: "fst (check_reminder now deliver sentAt r st)
     = (case user_status_col st (r_userId r) of
                 None \<Rightarrow> False
               | Some ust \<Rightarrow>
                   us_status ust = Some CheckedIn
                 \<and> (case (case r_lastStatusUpdate r of
                            Some t \<Rightarrow> Some t
                          | None \<Rightarrow>
                              (case us_currentSessionId ust of
                                 None \<Rightarrow> None
                               | Some sid \<Rightarrow>
                                   if sid = [] then None
                                   else (case checkin_sessions st sid of
                                           None \<Rightarrow> None
                                         | Some s \<Rightarrow>
                                             Some (if status_updates st sid = []
                                                   then s_checkinTime s
                                                   else Max (u_timestamp ` snd `
                                                          set (status_updates st sid)))))) of
                       None \<Rightarrow> False
                     | Some T \<Rightarrow> REMINDER_INTERVAL_MS \<le> now - T)
                 \<and> (case r_lastReminderSent r of
                       None \<Rightarrow> True
                     | Some l \<Rightarrow> REMINDER_INTERVAL_MS \<le> now - l)
                 \<and> deliver (r_userId r))" for r
  proof (cases "getUserCurrentState (r_userId r) st")
    case None
    then have "user_status_col st (r_userId r) = None" by (simp add: getUserCurrentState_None)
    with None show ?thesis by (simp add: fst_check_reminder)
  next
    case (Some us)
    from getUserCurrentState_status [OF Some] lastActivityTime_store [OF Some, of r] Some
    show ?thesis by (simp add: fst_check_reminder)
  qed
  have "st\<lparr>status_reminders := status_reminders st\<rparr> = st" by simp
  with check_all_users [where now = now and deliver = deliver and sentAt = sentAt
      and rs = "getActiveStatusReminders st" and st = st and x = "status_reminders st"]
  have "fst (checkAndSendStatusReminders now deliver sentAt st)
      = map r_userId (filter (\<lambda>r. fst (check_reminder now deliver sentAt r st))
          (getActiveStatusReminders st))"
    by (simp add: checkAndSendStatusReminders_def)
  then show "fst (checkAndSendStatusReminders now deliver sentAt st)
     = map r_userId (filter
         (\<lambda>r. case user_status_col st (r_userId r) of
                 None \<Rightarrow> False
               | Some ust \<Rightarrow>
                   us_status ust = Some CheckedIn
                 \<and> (case (case r_lastStatusUpdate r of
                            Some t \<Rightarrow> Some t
                          | None \<Rightarrow>
                              (case us_currentSessionId ust of
                                 None \<Rightarrow> None
                               | Some sid \<Rightarrow>
                                   if sid = [] then None
                                   else (case checkin_sessions st sid of
                                           None \<Rightarrow> None
                                         | Some s \<Rightarrow>
                                             Some (if status_updates st sid = []
                                                   then s_checkinTime s
                                                   else Max (u_timestamp ` snd `
                                                          set (status_updates st sid)))))) of
                       None \<Rightarrow> False
                     | Some T \<Rightarrow> REMINDER_INTERVAL_MS \<le> now - T)
                 \<and> (case r_lastReminderSent r of
                       None \<Rightarrow> True
                     | Some l \<Rightarrow> REMINDER_INTERVAL_MS \<le> now - l)
                 \<and> deliver (r_userId r))
         (getActiveStatusReminders st))"
    by (simp only: d)
next
  from check_all_frame [of now deliver sentAt "getActiveStatusReminders st" st]
  obtain y where "snd (checkAndSendStatusReminders now deliver sentAt st)
      = st\<lparr>status_reminders := y\<rparr>"
    by (auto simp add: checkAndSendStatusReminders_def)
  then show "(snd (checkAndSendStatusReminders now deliver sentAt st))
        \<lparr>status_reminders := status_reminders st\<rparr> = st" by simp
next
  fix u
  assume "u \<notin> set (fst (checkAndSendStatusReminders now deliver sentAt st))"
  then show "getStatusReminder u (snd (checkAndSendStatusReminders now deliver sentAt st))
              = getStatusReminder u st"
    unfolding checkAndSendStatusReminders_def by (rule check_all_untouched)
qed

theorem reminder_reference_instant_witness:
  "fst (checkAndSendStatusReminders 2710000 (\<lambda>_. True) (\<lambda>_. 2710500) demo_checkedin_db)
     = [''U1'']
   \<and> fst (checkAndSendStatusReminders 2709999 (\<lambda>_. True) (\<lambda>_. 2710500) demo_checkedin_db)
     = []
   \<and> getStatusReminder ''U1''
       (snd (checkAndSendStatusReminders 2709999 (\<lambda>_. True) (\<lambda>_. 2710500) demo_checkedin_db))
     = Some demo_reminder
   \<and> fst (checkAndSendStatusReminders 5700000 (\<lambda>_. True) (\<lambda>_. 5700500)
        (demo_checkedin_db\<lparr>status_reminders :=
           [(''U1'', demo_reminder\<lparr>r_lastStatusUpdate := Some 3000000\<rparr>)]\<rparr>))
     = [''U1'']
   \<and> fst (checkAndSendStatusReminders 5699999 (\<lambda>_. True) (\<lambda>_. 5700500)
        (demo_checkedin_db\<lparr>status_reminders :=
           [(''U1'', demo_reminder\<lparr>r_lastStatusUpdate := Some 3000000\<rparr>)]\<rparr>))
     = []
   \<and> fst (checkAndSendStatusReminders 9000000 (\<lambda>_. True) (\<lambda>_. 9000500)
        (demo_onbreak_db\<lparr>status_reminders := [(''U1'', demo_reminder)]\<rparr>))
     = []
   \<and> fst (checkAndSendStatusReminders 2701000 (\<lambda>_. True) (\<lambda>_. 2701500)
        (demo_checkedin_db\<lparr>status_updates := (\<lambda>_. [])\<rparr>))
     = [''U1'']
   \<and> fst (checkAndSendStatusReminders 2700999 (\<lambda>_. True) (\<lambda>_. 2701500)
        (demo_checkedin_db\<lparr>status_updates := (\<lambda>_. [])\<rparr>))
     = []"
proof -
  note defs = demo_checkedin_db_def demo_onbreak_db_def demo_db_def demo_reminder_def
    demo_user_checked_in_def demo_user_on_break_def demo_update1_def demo_update2_def
    getActiveStatusReminders_def getStatusReminder_def REMINDER_INTERVAL_MS_def
  note t = reminder_reference_instant
  have a: "fst (checkAndSendStatusReminders 2710000 (\<lambda>_. True) (\<lambda>_. 2710500) demo_checkedin_db)
     = [''U1'']"
    using t [of 2710000 "\<lambda>_. True" "\<lambda>_. 2710500" demo_checkedin_db]
    by (simp add: defs)
  have b: "fst (checkAndSendStatusReminders 2709999 (\<lambda>_. True) (\<lambda>_. 2710500) demo_checkedin_db)
     = []"
    using t [of 2709999 "\<lambda>_. True" "\<lambda>_. 2710500" demo_checkedin_db]
    by (simp add: defs)
  have c: "getStatusReminder ''U1''
       (snd (checkAndSendStatusReminders 2709999 (\<lambda>_. True) (\<lambda>_. 2710500) demo_checkedin_db))
     = Some demo_reminder"
    using t [of 2709999 "\<lambda>_. True" "\<lambda>_. 2710500" demo_checkedin_db] b
    by (simp add: getStatusReminder_def demo_checkedin_db_def)
  have d: "fst (checkAndSendStatusReminders 5700000 (\<lambda>_. True) (\<lambda>_. 5700500)
        (demo_checkedin_db\<lparr>status_reminders :=
           [(''U1'', demo_reminder\<lparr>r_lastStatusUpdate := Some 3000000\<rparr>)]\<rparr>))
     = [''U1'']"
    using t [of 5700000 "\<lambda>_. True" "\<lambda>_. 5700500" "demo_checkedin_db\<lparr>status_reminders :=
           [(''U1'', demo_reminder\<lparr>r_lastStatusUpdate := Some 3000000\<rparr>)]\<rparr>"]
    by (simp add: defs)
  have e: "fst (checkAndSendStatusReminders 5699999 (\<lambda>_. True) (\<lambda>_. 5700500)
        (demo_checkedin_db\<lparr>status_reminders :=
           [(''U1'', demo_reminder\<lparr>r_lastStatusUpdate := Some 3000000\<rparr>)]\<rparr>))
     = []"
    using t [of 5699999 "\<lambda>_. True" "\<lambda>_. 5700500" "demo_checkedin_db\<lparr>status_reminders :=
           [(''U1'', demo_reminder\<lparr>r_lastStatusUpdate := Some 3000000\<rparr>)]\<rparr>"]
    by (simp add: defs)
  have f: "fst (checkAndSendStatusReminders 9000000 (\<lambda>_. True) (\<lambda>_. 9000500)
        (demo_onbreak_db\<lparr>status_reminders := [(''U1'', demo_reminder)]\<rparr>))
     = []"
    using t [of 9000000 "\<lambda>_. True" "\<lambda>_. 9000500"
        "demo_onbreak_db\<lparr>status_reminders := [(''U1'', demo_reminder)]\<rparr>"]
    by (simp add: defs)
  have g: "fst (checkAndSendStatusReminders 2701000 (\<lambda>_. True) (\<lambda>_. 2701500)
        (demo_checkedin_db\<lparr>status_updates := (\<lambda>_. [])\<rparr>))
     = [''U1'']"
    using t [of 2701000 "\<lambda>_. True" "\<lambda>_. 2701500"
        "demo_checkedin_db\<lparr>status_updates := (\<lambda>_. [])\<rparr>"]
    by (simp add: defs demo_session_def)
  have h: "fst (checkAndSendStatusReminders 2700999 (\<lambda>_. True) (\<lambda>_. 2701500)
        (demo_checkedin_db\<lparr>status_updates := (\<lambda>_. [])\<rparr>))
     = []"
    using t [of 2700999 "\<lambda>_. True" "\<lambda>_. 2701500"
        "demo_checkedin_db\<lparr>status_updates := (\<lambda>_. [])\<rparr>"]
    by (simp add: defs demo_session_def)
  from a b c d e f g h show ?thesis by blast
qed

subsection \<open>Status updates when the clock does not advance\<close>


subsection \<open>Runs of ticks on the example store\<close>















subsection \<open>The reminder collection stays well formed\<close>

lemma reminders_wf_put:
  assumes "reminders_wf st" and "r_userId r' = v"
  shows "reminders_wf (st\<lparr>status_reminders := AList.update v r' (status_reminders st)\<rparr>)"
proof -
  have d: "distinct (map fst (status_reminders st))"
    and k: "\<forall>(k, r) \<in> set (status_reminders st). r_userId r = k"
    using assms(1) by (simp_all add: reminders_wf_def)
  have "\<forall>(k, x) \<in> set (AList.update v r' (status_reminders st)). r_userId x = k"
  proof (clarify)
    fix k x assume "(k, x) \<in> set (AList.update v r' (status_reminders st))"
    from set_update_cases [OF d this] show "r_userId x = k" using k assms(2) by auto
  qed
  then show ?thesis using d by (simp add: reminders_wf_def distinct_update)
qed

lemma reminders_wf_empty: "reminders_wf empty_db"
  by (simp add: reminders_wf_def empty_db_def)

lemma reminders_wf_createStatusReminder:
  "reminders_wf st \<Longrightarrow> reminders_wf (createStatusReminder u un sid st)"
  unfolding createStatusReminder_def by (rule reminders_wf_put) simp_all

lemma reminders_wf_updateStatusReminder:
  "reminders_wf st \<Longrightarrow> reminders_wf (updateStatusReminder u upd st)"
proof -
  assume wf: "reminders_wf st"
  show ?thesis
  proof (cases "map_of (status_reminders st) u")
    case None
    with wf show ?thesis by (simp add: updateStatusReminder_def)
  next
    case (Some r)
    from reminders_wf_key [OF wf Some] have "r_userId (apply_reminder_updates upd r) = u" by simp
    from reminders_wf_put [OF wf this] Some show ?thesis by (simp add: updateStatusReminder_def)
  qed
qed

end
